theory Spec2Isabelle
  imports Main
begin

section \<open>Common conventions\<close>

text \<open>
  The three modules of pontospell (chart.py, xducer.py, levenshtein.py) align two
  sequences of elements under caller-supplied edit costs.

  \<^item> Elements are Python values other than \<open>None\<close>: the code itself uses \<open>None\<close> as the
    mark of an absent element, so an element slot is an \<open>option\<close>. Source and target
    elements may be of different types (\<open>'a\<close> and \<open>'b\<close>).
  \<^item> Costs are numbers with exact arithmetic, any linearly ordered ring \<open>'c\<close>
    (Python's unbounded \<open>int\<close>, or the reals); rounding of Python floats is not modelled.
    chart.py and levenshtein.py add the costs of a path from its first step on, xducer.py
    from its last step back, so with float costs their totals may differ in the last bit;
    what is proved of a total is proved of exact costs.
  \<^item> Cost functions are total and deterministic.
  \<^item> Everything the code raises is a value of type \<open>error\<close>.
  \<^item> A string is the list of its code points; \<open>unicodedata.category\<close> is a table outside
    the repository, so the test "category starts with M" is a parameter \<open>is_mark\<close>, and so
    is \<open>str\<close>, the conversion of an element to a string.
\<close>

datatype error = ValueError | KeyError | IndexError | TypeError | RecursionError

type_synonym codepoint = nat
type_synonym pystr = "codepoint list"

definition py_index :: "'e list \<Rightarrow> int \<Rightarrow> error + 'e" where
  \<comment> \<open>\<open>seq[i]\<close>: an index below zero counts from the end; one outside the sequence raises.\<close>
  "py_index seq i =
     (if 0 \<le> i \<and> i < int (length seq) then Inr (seq ! nat i)
      else if i < 0 \<and> - int (length seq) \<le> i then Inr (seq ! nat (int (length seq) + i))
      else Inl IndexError)"

text \<open>The default costs; chart.py and xducer.py define the same three functions.\<close>

definition lev_ins_function :: "'b \<Rightarrow> 'c::linordered_idom" where
  "lev_ins_function targ_element = 1"

definition lev_del_function :: "'a \<Rightarrow> 'c::linordered_idom" where
  "lev_del_function src_element = 1"

definition lev_sub_function :: "'a \<Rightarrow> 'a \<Rightarrow> 'c::linordered_idom" where
  "lev_sub_function src_element targ_element = (if src_element = targ_element then 0 else 2)"

section \<open>levenshtein.py: the class Levenshtein\<close>

text \<open>
  The older tabular engine, an object that keeps the two sequences, the widths of their
  columns and the distance matrix of the last \<open>set_pair\<close>. The costs are methods that a
  subclass overrides, here fields of the object. The names of the functions of this
  module carry the prefix \<open>lev_\<close> where chart.py has a function of the same name.

  An operation is one of four strings. An \<open>AlignmentUnit\<close> is a named tuple
  \<open>(unit1, unit2, cost)\<close>, with \<open>None\<close> for the element that an insertion or a deletion
  lacks, and \<open>cost\<close> the cumulative cost.
\<close>

definition lev_START :: string where
  "lev_START = ''start''"

definition INSERT :: string where
  "INSERT = ''i''"

definition DELETE :: string where
  "DELETE = ''d''"

definition SUBSTITUTE :: string where
  "SUBSTITUTE = ''s''"

type_synonym ('a, 'b, 'c) AlignmentUnit = "'a option \<times> 'b option \<times> 'c"

type_synonym ('a, 'b, 'c) AlignmentUnits = "('a, 'b, 'c) AlignmentUnit list"

text \<open>
  \<open>print_len\<close> of levenshtein.py counts the same characters as the one of chart.py (a loop
  instead of a sum); its \<open>greatest_width\<close> starts from 0 and so accepts an empty list.
\<close>

definition lev_print_len :: "(codepoint \<Rightarrow> bool) \<Rightarrow> ('e \<Rightarrow> pystr) \<Rightarrow> 'e \<Rightarrow> nat" where
  "lev_print_len is_mark str text =
     fold (\<lambda>character width. if \<not> is_mark character then width + 1 else width) (str text) 0"

definition lev_greatest_width ::
  "(codepoint \<Rightarrow> bool) \<Rightarrow> ('e \<Rightarrow> pystr) \<Rightarrow> 'e list \<Rightarrow> nat" where
  "lev_greatest_width is_mark str elements =
     fold (\<lambda>element widest. max widest (lev_print_len is_mark str element)) elements 0"

record 'c LevCell =
  num :: 'c
  operation :: string

type_synonym 'c Distance = "nat \<times> nat \<rightharpoonup> 'c LevCell"

record ('a, 'b, 'c) Levenshtein =
  sequence1 :: "'a list"
  sequence2 :: "'b list"
  distance :: "'c Distance option"
  widest_sequence1_char :: "nat option"
  widest_sequence2_char :: "nat option"
  ins_cost :: "'b \<Rightarrow> 'c"
  del_cost :: "'a \<Rightarrow> 'c"
  sub_cost :: "'a \<Rightarrow> 'b \<Rightarrow> 'c"

definition init_Levenshtein ::
  "('b \<Rightarrow> 'c) \<Rightarrow> ('a \<Rightarrow> 'c) \<Rightarrow> ('a \<Rightarrow> 'b \<Rightarrow> 'c) \<Rightarrow> ('a, 'b, 'c) Levenshtein" where
  \<comment> \<open>\<open>__init__\<close>, for a class with the given three methods.\<close>
  "init_Levenshtein ins_method del_method sub_method =
     \<lparr>sequence1 = [], sequence2 = [], distance = None,
      widest_sequence1_char = None, widest_sequence2_char = None,
      ins_cost = ins_method, del_cost = del_method, sub_cost = sub_method\<rparr>"

definition distance_item :: "'c Distance option \<Rightarrow> int \<times> int \<Rightarrow> error + 'c LevCell" where
  \<comment> \<open>\<open>distance[key]\<close>: \<open>None\<close> has no items; the keys are pairs of positions, none negative.\<close>
  "distance_item table key =
     (case table of
        None \<Rightarrow> Inl TypeError
      | Some d \<Rightarrow>
          if fst key < 0 \<or> snd key < 0 then Inl KeyError
          else (case d (nat (fst key), nat (snd key)) of
                  None \<Rightarrow> Inl KeyError
                | Some c \<Rightarrow> Inr c))"

text \<open>
  The loops of \<open>_compute_min_edit_distance\<close>, each threading the dict \<open>distance\<close>: the
  margin of \<open>sequence2\<close>, the margin of \<open>sequence1\<close>, then the body, row by row. The three
  candidate costs of a body cell are the locals \<open>ins_cost\<close>, \<open>sub_cost\<close> and \<open>del_cost\<close> of
  the source.
\<close>

fun lev_margin_sequence2 ::
  "('a, 'b, 'c::linordered_idom) Levenshtein \<Rightarrow> (nat \<times> 'b) list \<Rightarrow> 'c Distance \<Rightarrow>
   error + 'c Distance" where
  "lev_margin_sequence2 self [] d = Inr d"
| "lev_margin_sequence2 self ((targ_pos, targ_element) # rest) d =
     (let i = targ_pos + 1
      in case distance_item (Some d) (int targ_pos, 0) of
           Inl e \<Rightarrow> Inl e
         | Inr before \<Rightarrow>
             lev_margin_sequence2 self rest
               (d((i, 0) \<mapsto> \<lparr>num = num before + ins_cost self targ_element,
                              operation = INSERT\<rparr>)))"

fun lev_margin_sequence1 ::
  "('a, 'b, 'c::linordered_idom) Levenshtein \<Rightarrow> (nat \<times> 'a) list \<Rightarrow> 'c Distance \<Rightarrow>
   error + 'c Distance" where
  "lev_margin_sequence1 self [] d = Inr d"
| "lev_margin_sequence1 self ((src_pos, src_element) # rest) d =
     (let j = src_pos + 1
      in case distance_item (Some d) (0, int src_pos) of
           Inl e \<Rightarrow> Inl e
         | Inr before \<Rightarrow>
             lev_margin_sequence1 self rest
               (d((0, j) \<mapsto> \<lparr>num = num before + del_cost self src_element,
                              operation = DELETE\<rparr>)))"

fun lev_body_row ::
  "('a, 'b, 'c::linordered_idom) Levenshtein \<Rightarrow> nat \<Rightarrow> 'b \<Rightarrow> (nat \<times> 'a) list \<Rightarrow>
   'c Distance \<Rightarrow> error + 'c Distance" where
  "lev_body_row self targ_pos targ_element [] d = Inr d"
| "lev_body_row self targ_pos targ_element ((src_pos, src_element) # rest) d =
     (let i = targ_pos + 1; j = src_pos + 1
      in case distance_item (Some d) (int targ_pos, int j) of
           Inl e \<Rightarrow> Inl e
         | Inr cell_above \<Rightarrow>
      (case distance_item (Some d) (int targ_pos, int src_pos) of
           Inl e \<Rightarrow> Inl e
         | Inr cell_diagonal \<Rightarrow>
      (case distance_item (Some d) (int i, int src_pos) of
           Inl e \<Rightarrow> Inl e
         | Inr cell_beside \<Rightarrow>
             let ins_total = num cell_above + ins_cost self targ_element;
                 sub_total = num cell_diagonal + sub_cost self src_element targ_element;
                 del_total = num cell_beside + del_cost self src_element;
                 min_cost = min (min ins_total sub_total) del_total
             in lev_body_row self targ_pos targ_element rest
                  (d((i, j) \<mapsto> \<lparr>num = min_cost,
                                 operation = (if min_cost = sub_total then SUBSTITUTE
                                              else if min_cost = del_total then DELETE
                                              else INSERT)\<rparr>)))))"

fun lev_body ::
  "('a, 'b, 'c::linordered_idom) Levenshtein \<Rightarrow> (nat \<times> 'b) list \<Rightarrow> 'c Distance \<Rightarrow>
   error + 'c Distance" where
  "lev_body self [] d = Inr d"
| "lev_body self ((targ_pos, targ_element) # rest) d =
     (case lev_body_row self targ_pos targ_element (enumerate 0 (sequence1 self)) d of
        Inl e \<Rightarrow> Inl e
      | Inr d' \<Rightarrow> lev_body self rest d')"

definition lev_min_edit_distance :: "('a, 'b, 'c) Levenshtein \<Rightarrow> error + 'c" where
  "lev_min_edit_distance self =
     (case distance_item (distance self)
             (int (length (sequence2 self)), int (length (sequence1 self))) of
        Inl e \<Rightarrow> Inl e
      | Inr last_cell \<Rightarrow> Inr (num last_cell))"

text \<open>
  A method that assigns to the object returns the object with its value. (When a loop raises,
  the source has already bound \<open>self.distance\<close> to the dict being filled; the model returns
  the error alone. The loops are proved below never to raise.)
\<close>

definition lev_compute_min_edit_distance ::
  "('a, 'b, 'c::linordered_idom) Levenshtein \<Rightarrow> error + ('c \<times> ('a, 'b, 'c) Levenshtein)" where
  "lev_compute_min_edit_distance self =
     (case lev_margin_sequence2 self (enumerate 0 (sequence2 self))
             [(0, 0) \<mapsto> \<lparr>num = 0, operation = lev_START\<rparr>] of
        Inl e \<Rightarrow> Inl e
      | Inr d1 \<Rightarrow>
    (case lev_margin_sequence1 self (enumerate 0 (sequence1 self)) d1 of
        Inl e \<Rightarrow> Inl e
      | Inr d2 \<Rightarrow>
    (case lev_body self (enumerate 0 (sequence2 self)) d2 of
        Inl e \<Rightarrow> Inl e
      | Inr d3 \<Rightarrow>
          let self' = self\<lparr>distance := Some d3\<rparr>
          in (case lev_min_edit_distance self' of
                Inl e \<Rightarrow> Inl e
              | Inr result \<Rightarrow> Inr (result, self')))))"

definition set_pair ::
  "(codepoint \<Rightarrow> bool) \<Rightarrow> ('a \<Rightarrow> pystr) \<Rightarrow> ('b \<Rightarrow> pystr) \<Rightarrow>
   ('a, 'b, 'c::linordered_idom) Levenshtein \<Rightarrow> 'a list \<Rightarrow> 'b list \<Rightarrow>
   error + ('c \<times> ('a, 'b, 'c) Levenshtein)" where
  "set_pair is_mark str1 str2 self seq1 seq2 =
     lev_compute_min_edit_distance
       (self\<lparr>sequence1 := seq1, sequence2 := seq2,
              widest_sequence1_char := Some (lev_greatest_width is_mark str1 seq1),
              widest_sequence2_char := Some (lev_greatest_width is_mark str2 seq2)\<rparr>)"

text \<open>The \<open>while\<close> loop of \<open>alignment_facts\<close>; the positions are Python integers.\<close>

function alignment_facts_loop ::
  "('a, 'b, 'c) Levenshtein \<Rightarrow> int \<Rightarrow> int \<Rightarrow> ('a, 'b, 'c) AlignmentUnits \<Rightarrow>
   error + ('a, 'b, 'c) AlignmentUnits" where
  "alignment_facts_loop self position1 position2 backtrace =
     (if position1 > 0 \<or> position2 > 0 then
        (case distance_item (distance self) (position2, position1) of
           Inl e \<Rightarrow> Inl e
         | Inr this_cell \<Rightarrow>
             let provenance = operation this_cell;
                 cumulative = num this_cell
             in if provenance = SUBSTITUTE then
                  (case py_index (sequence1 self) (position1 - 1) of
                     Inl e \<Rightarrow> Inl e
                   | Inr s_char \<Rightarrow>
                  (case py_index (sequence2 self) (position2 - 1) of
                     Inl e \<Rightarrow> Inl e
                   | Inr t_char \<Rightarrow>
                       alignment_facts_loop self (position1 - 1) (position2 - 1)
                         ((Some s_char, Some t_char, cumulative) # backtrace)))
                else if provenance = INSERT then
                  (case py_index (sequence2 self) (position2 - 1) of
                     Inl e \<Rightarrow> Inl e
                   | Inr t_char \<Rightarrow>
                       alignment_facts_loop self position1 (position2 - 1)
                         ((None, Some t_char, cumulative) # backtrace))
                else
                  (case py_index (sequence1 self) (position1 - 1) of
                     Inl e \<Rightarrow> Inl e
                   | Inr s_char \<Rightarrow>
                       alignment_facts_loop self (position1 - 1) position2
                         ((Some s_char, None, cumulative) # backtrace)))
      else Inr backtrace)"
  by pat_completeness auto
termination
  by (relation "measure (\<lambda>(self, position1, position2, backtrace).
                  nat (position1 + 1) + nat (position2 + 1))")
     (auto simp: distance_item_def split: if_splits option.splits)

declare alignment_facts_loop.simps [simp del]

definition alignment_facts ::
  "('a, 'b, 'c) Levenshtein \<Rightarrow> error + ('a, 'b, 'c) AlignmentUnits" where
  "alignment_facts self =
     alignment_facts_loop self
       (int (length (sequence1 self))) (int (length (sequence2 self))) []"

section \<open>chart.py: the tabular engine\<close>

datatype Operation = START | INS | DEL | SUB

record 'c Cell =
  this_cost :: 'c
  cumulative_cost :: 'c
  operation :: Operation

text \<open>\<open>Coordinates(target_pos, source_pos)\<close>; the keys of the distance matrix.\<close>

type_synonym Coordinates = "nat \<times> nat"

type_synonym 'c DistanceMatrix = "Coordinates \<rightharpoonup> 'c Cell"

text \<open>
  \<open>PairAnalysis\<close> is a NamedTuple whose last field \<open>matrix\<close> has a default value, a dict
  built once when the class is defined. \<open>levenshtein\<close> never passes a matrix, so every
  analysis it returns refers to that one dict, and \<open>compute_min_edit_distance\<close> writes
  into it. The model keeps the dict outside the record, as a state that every function
  reading or writing \<open>analysis.matrix\<close> takes (and returns when it writes).
  \<open>initial_matrix\<close> is its content when the module is loaded.
\<close>

record ('a, 'b, 'c) PairAnalysis =
  source :: "'a list"
  source_widest :: nat
  target :: "'b list"
  target_widest :: nat
  ins_cost :: "'b \<Rightarrow> 'c"
  del_cost :: "'a \<Rightarrow> 'c"
  sub_cost :: "'a \<Rightarrow> 'b \<Rightarrow> 'c"

definition initial_matrix :: "('c::linordered_idom) DistanceMatrix" where
  "initial_matrix = [(0, 0) \<mapsto> \<lparr>this_cost = 0, cumulative_cost = 0, operation = START\<rparr>]"

record ('a, 'b, 'c) EditStep =
  source :: "'a option"
  target :: "'b option"
  cell :: "'c Cell"

type_synonym ('a, 'b, 'c) Backtrace = "('a, 'b, 'c) EditStep list"

definition print_len :: "(codepoint \<Rightarrow> bool) \<Rightarrow> ('e \<Rightarrow> pystr) \<Rightarrow> 'e \<Rightarrow> nat" where
  "print_len is_mark str elements =
     length (filter (\<lambda>element. \<not> is_mark element) (str elements))"

definition greatest_width ::
  "(codepoint \<Rightarrow> bool) \<Rightarrow> ('e \<Rightarrow> pystr) \<Rightarrow> 'e list \<Rightarrow> error + nat" where
  \<comment> \<open>\<open>max\<close> of no values raises ValueError.\<close>
  "greatest_width is_mark str elements =
     (case map (print_len is_mark str) elements of
        [] \<Rightarrow> Inl ValueError
      | w # ws \<Rightarrow> Inr (fold max ws w))"

definition enumerate1 :: "'e list \<Rightarrow> (nat \<times> 'e) list" where
  "enumerate1 seq = map (\<lambda>(zero_based, anything). (zero_based + 1, anything)) (enumerate 0 seq)"

definition matrix_item :: "'c DistanceMatrix \<Rightarrow> int \<times> int \<Rightarrow> error + 'c Cell" where
  \<comment> \<open>\<open>analysis.matrix[coords]\<close>: the keys are pairs of sequence positions, none negative.\<close>
  "matrix_item matrix coords =
     (if fst coords < 0 \<or> snd coords < 0 then Inl KeyError
      else case matrix (nat (fst coords), nat (snd coords)) of
             None \<Rightarrow> Inl KeyError
           | Some c \<Rightarrow> Inr c)"

fun make_edited_cell ::
  "('a, 'b, 'c::linordered_idom) PairAnalysis \<Rightarrow> 'c DistanceMatrix \<Rightarrow> Coordinates \<Rightarrow>
   'a option \<Rightarrow> 'b option \<Rightarrow> error + 'c Cell" where
  "make_edited_cell analysis matrix to_coords src_element targ_element =
     (let opus = (if src_element = None then INS
                  else if targ_element = None then DEL
                  else SUB);
          coords_before =
            (int (fst to_coords) - (if targ_element \<noteq> None then 1 else 0),
             int (snd to_coords) - (if src_element \<noteq> None then 1 else 0))
      in case matrix_item matrix coords_before of
           Inl e \<Rightarrow> Inl e
         | Inr cell_before \<Rightarrow>
             let cumul_cost_before = cumulative_cost cell_before
             in (case (src_element, targ_element) of
                  (None, None) \<Rightarrow> Inl TypeError
                | (None, Some t) \<Rightarrow>
                    let new_cost = ins_cost analysis t
                    in Inr \<lparr>this_cost = new_cost,
                            cumulative_cost = cumul_cost_before + new_cost, operation = opus\<rparr>
                | (Some s, None) \<Rightarrow>
                    let new_cost = del_cost analysis s
                    in Inr \<lparr>this_cost = new_cost,
                            cumulative_cost = cumul_cost_before + new_cost, operation = opus\<rparr>
                | (Some s, Some t) \<Rightarrow>
                    let new_cost = sub_cost analysis s t
                    in Inr \<lparr>this_cost = new_cost,
                            cumulative_cost = cumul_cost_before + new_cost, operation = opus\<rparr>))"

declare make_edited_cell.simps [simp del]

text \<open>
  In \<open>make_edited_cell\<close> the cost function is chosen by \<open>opus\<close>. With both elements \<open>None\<close>
  the code hands \<open>None\<close> to \<open>ins_cost\<close> and, when that function accepts it (the default
  one does), returns an INS cell on top of the cell at \<open>to_coords\<close> itself. Here a cost
  function is defined on elements only, and the model answers \<open>TypeError\<close> for that call.
  No caller in the repository makes it: \<open>compute_min_edit_distance\<close> always passes at least
  one element.

  The loops of \<open>compute_min_edit_distance\<close>: the two margins, then the body, row by row.
\<close>

fun margin_target ::
  "('a, 'b, 'c::linordered_idom) PairAnalysis \<Rightarrow> (nat \<times> 'b) list \<Rightarrow> 'c DistanceMatrix \<Rightarrow>
   error + 'c DistanceMatrix" where
  "margin_target analysis [] matrix = Inr matrix"
| "margin_target analysis ((targ_pos, targ_element) # rest) matrix =
     (let coords = (targ_pos, 0)
      in case make_edited_cell analysis matrix coords None (Some targ_element) of
           Inl e \<Rightarrow> Inl e
         | Inr c \<Rightarrow> margin_target analysis rest (matrix(coords \<mapsto> c)))"

fun margin_source ::
  "('a, 'b, 'c::linordered_idom) PairAnalysis \<Rightarrow> (nat \<times> 'a) list \<Rightarrow> 'c DistanceMatrix \<Rightarrow>
   error + 'c DistanceMatrix" where
  "margin_source analysis [] matrix = Inr matrix"
| "margin_source analysis ((src_pos, src_element) # rest) matrix =
     (let coords = (0, src_pos)
      in case make_edited_cell analysis matrix coords (Some src_element) None of
           Inl e \<Rightarrow> Inl e
         | Inr c \<Rightarrow> margin_source analysis rest (matrix(coords \<mapsto> c)))"

fun body_row ::
  "('a, 'b, 'c::linordered_idom) PairAnalysis \<Rightarrow> nat \<Rightarrow> 'b \<Rightarrow> (nat \<times> 'a) list \<Rightarrow>
   'c DistanceMatrix \<Rightarrow> error + 'c DistanceMatrix" where
  "body_row analysis targ_pos targ_element [] matrix = Inr matrix"
| "body_row analysis targ_pos targ_element ((src_pos, src_element) # rest) matrix =
     (let coords = (targ_pos, src_pos)
      in case make_edited_cell analysis matrix coords None (Some targ_element) of
           Inl e \<Rightarrow> Inl e
         | Inr ins_cell \<Rightarrow>
      (case make_edited_cell analysis matrix coords (Some src_element) (Some targ_element) of
           Inl e \<Rightarrow> Inl e
         | Inr sub_cell \<Rightarrow>
      (case make_edited_cell analysis matrix coords (Some src_element) None of
           Inl e \<Rightarrow> Inl e
         | Inr del_cell \<Rightarrow>
             let min_cost = min (min (cumulative_cost ins_cell) (cumulative_cost sub_cell))
                                (cumulative_cost del_cell);
                 new_cell = (if min_cost = cumulative_cost sub_cell then sub_cell
                             else if min_cost = cumulative_cost del_cell then del_cell
                             else ins_cell)
             in body_row analysis targ_pos targ_element rest (matrix(coords \<mapsto> new_cell)))))"

fun body ::
  "('a, 'b, 'c::linordered_idom) PairAnalysis \<Rightarrow> (nat \<times> 'b) list \<Rightarrow> 'c DistanceMatrix \<Rightarrow>
   error + 'c DistanceMatrix" where
  "body analysis [] matrix = Inr matrix"
| "body analysis ((targ_pos, targ_element) # rest) matrix =
     (case body_row analysis targ_pos targ_element
             (enumerate1 (PairAnalysis.source analysis)) matrix of
        Inl e \<Rightarrow> Inl e
      | Inr matrix' \<Rightarrow> body analysis rest matrix')"

definition compute_min_edit_distance ::
  "('a, 'b, 'c::linordered_idom) PairAnalysis \<Rightarrow> 'c DistanceMatrix \<Rightarrow>
   error + 'c DistanceMatrix" where
  "compute_min_edit_distance analysis matrix =
     (case margin_target analysis (enumerate1 (PairAnalysis.target analysis)) matrix of
        Inl e \<Rightarrow> Inl e
      | Inr matrix1 \<Rightarrow>
    (case margin_source analysis (enumerate1 (PairAnalysis.source analysis)) matrix1 of
        Inl e \<Rightarrow> Inl e
      | Inr matrix2 \<Rightarrow>
          body analysis (enumerate1 (PairAnalysis.target analysis)) matrix2))"

definition levenshtein ::
  "(codepoint \<Rightarrow> bool) \<Rightarrow> ('a \<Rightarrow> pystr) \<Rightarrow> ('b \<Rightarrow> pystr) \<Rightarrow> 'a list \<Rightarrow> 'b list \<Rightarrow>
   ('b \<Rightarrow> 'c) \<Rightarrow> ('a \<Rightarrow> 'c) \<Rightarrow> ('a \<Rightarrow> 'b \<Rightarrow> 'c) \<Rightarrow> ('c::linordered_idom) DistanceMatrix \<Rightarrow>
   error + (('a, 'b, 'c) PairAnalysis \<times> 'c DistanceMatrix)" where
  "levenshtein is_mark str_s str_t src targ ins_costs del_costs sub_costs matrix =
     (case greatest_width is_mark str_s src of
        Inl e \<Rightarrow> Inl e
      | Inr sw \<Rightarrow>
    (case greatest_width is_mark str_t targ of
        Inl e \<Rightarrow> Inl e
      | Inr tw \<Rightarrow>
          let analysis = \<lparr>PairAnalysis.source = src, source_widest = sw,
                          target = targ, target_widest = tw,
                          ins_cost = ins_costs, del_cost = del_costs, sub_cost = sub_costs\<rparr>
          in (case compute_min_edit_distance analysis matrix of
                Inl e \<Rightarrow> Inl e
              | Inr matrix' \<Rightarrow> Inr (analysis, matrix'))))"

definition min_edit_distance ::
  "('a, 'b, 'c) PairAnalysis \<Rightarrow> 'c DistanceMatrix \<Rightarrow> error + 'c" where
  "min_edit_distance analysis matrix =
     (let coords = (int (length (PairAnalysis.target analysis)),
                    int (length (PairAnalysis.source analysis)))
      in case matrix_item matrix coords of
           Inl e \<Rightarrow> Inl e
         | Inr last_cell \<Rightarrow> Inr (cumulative_cost last_cell))"

text \<open>
  The \<open>while\<close> loop of \<open>get_one_backtrace\<close>. The positions are Python integers: a matrix
  whose cell sends the walk past a margin makes them negative, and the next subscript
  or lookup decides what happens.
\<close>

function backtrace_loop ::
  "('a, 'b, 'c) PairAnalysis \<Rightarrow> 'c DistanceMatrix \<Rightarrow> int \<Rightarrow> int \<Rightarrow> ('a, 'b, 'c) Backtrace \<Rightarrow>
   error + ('a, 'b, 'c) Backtrace" where
  "backtrace_loop analysis matrix src_pos targ_pos backtrace =
     (if src_pos > 0 \<or> targ_pos > 0 then
        (case matrix_item matrix (targ_pos, src_pos) of
           Inl e \<Rightarrow> Inl e
         | Inr this_cell \<Rightarrow>
             if operation this_cell = SUB then
               (case py_index (PairAnalysis.source analysis) (src_pos - 1) of
                  Inl e \<Rightarrow> Inl e
                | Inr s \<Rightarrow>
              (case py_index (PairAnalysis.target analysis) (targ_pos - 1) of
                  Inl e \<Rightarrow> Inl e
                | Inr t \<Rightarrow>
                    backtrace_loop analysis matrix (src_pos - 1) (targ_pos - 1)
                      (\<lparr>EditStep.source = Some s, target = Some t, cell = this_cell\<rparr> # backtrace)))
             else if operation this_cell = INS then
               (case py_index (PairAnalysis.target analysis) (targ_pos - 1) of
                  Inl e \<Rightarrow> Inl e
                | Inr t \<Rightarrow>
                    backtrace_loop analysis matrix src_pos (targ_pos - 1)
                      (\<lparr>EditStep.source = None, target = Some t, cell = this_cell\<rparr> # backtrace))
             else
               (case py_index (PairAnalysis.source analysis) (src_pos - 1) of
                  Inl e \<Rightarrow> Inl e
                | Inr s \<Rightarrow>
                    backtrace_loop analysis matrix (src_pos - 1) targ_pos
                      (\<lparr>EditStep.source = Some s, target = None, cell = this_cell\<rparr> # backtrace)))
      else Inr backtrace)"
  by pat_completeness auto
termination
  by (relation "measure (\<lambda>(analysis, matrix, src_pos, targ_pos, backtrace).
                  nat (src_pos + 1) + nat (targ_pos + 1))")
     (auto simp: matrix_item_def split: if_splits)

declare backtrace_loop.simps [simp del]

definition get_one_backtrace ::
  "('a, 'b, 'c) PairAnalysis \<Rightarrow> 'c DistanceMatrix \<Rightarrow> error + ('a, 'b, 'c) Backtrace" where
  "get_one_backtrace analysis matrix =
     backtrace_loop analysis matrix
       (int (length (PairAnalysis.source analysis)))
       (int (length (PairAnalysis.target analysis))) []"

section \<open>xducer.py: the enumerator\<close>

text \<open>
  \<open>Coordinates(source, target)\<close> are here pairs (source position, target position), the
  other way round than in chart.py. The enumerator has its own \<open>Cell\<close> and \<open>Operation\<close>.
\<close>

record ('a, 'b, 'c) xCell =
  source :: "'a option"
  target :: "'b option"
  this_cost :: 'c
  cumul_cost :: 'c

type_synonym ('a, 'b, 'c) Parse = "('a, 'b, 'c) xCell list"
type_synonym ('a, 'b, 'c) Parses = "('a, 'b, 'c) Parse list"

datatype xOperation = xSUB | xDEL | xINS

record ('a, 'b, 'c) CostFunctions =
  insert_fn :: "'b \<Rightarrow> 'c"
  delete_fn :: "'a \<Rightarrow> 'c"
  substitute_fn :: "'a \<Rightarrow> 'b \<Rightarrow> 'c"

text \<open>
  \<open>Arguments.memory\<close> is a dict that \<open>relate\<close> fills; \<open>arguments\<close> makes a new one at
  every call. The model threads it as a state beside the record.
\<close>

type_synonym ('a, 'b, 'c) Memory = "Coordinates \<rightharpoonup> ('a, 'b, 'c) Parses"

record ('a, 'b, 'c) Arguments =
  source :: "'a list"
  target :: "'b list"
  cost_functions :: "('a, 'b, 'c) CostFunctions"
  just_one :: bool

definition arguments ::
  "'a list \<Rightarrow> 'b list \<Rightarrow> ('a, 'b, 'c) CostFunctions \<Rightarrow> bool \<Rightarrow>
   ('a, 'b, 'c) Arguments \<times> ('a, 'b, 'c) Memory" where
  "arguments src targ costs just_one_flag =
     (\<lparr>Arguments.source = src, target = targ, cost_functions = costs,
       just_one = just_one_flag\<rparr>, Map.empty)"

definition default_costs :: "('a, 'a, 'c::linordered_idom) CostFunctions" where
  "default_costs = \<lparr>insert_fn = lev_ins_function, delete_fn = lev_del_function,
                     substitute_fn = lev_sub_function\<rparr>"

definition op_cost ::
  "('a, 'b, 'c) Arguments \<Rightarrow> Coordinates \<Rightarrow> xOperation \<Rightarrow> error + 'c" where
  "op_cost args pos opus =
     (if opus = xSUB then
        (case py_index (Arguments.source args) (int (fst pos)) of
           Inl e \<Rightarrow> Inl e
         | Inr s \<Rightarrow>
        (case py_index (Arguments.target args) (int (snd pos)) of
           Inl e \<Rightarrow> Inl e
         | Inr t \<Rightarrow> Inr (substitute_fn (cost_functions args) s t)))
      else if opus = xDEL then
        (case py_index (Arguments.source args) (int (fst pos)) of
           Inl e \<Rightarrow> Inl e
         | Inr s \<Rightarrow> Inr (delete_fn (cost_functions args) s))
      else
        (case py_index (Arguments.target args) (int (snd pos)) of
           Inl e \<Rightarrow> Inl e
         | Inr t \<Rightarrow> Inr (insert_fn (cost_functions args) t)))"

fun parse_cost :: "('a, 'b, 'c) Parse \<Rightarrow> error + 'c" where
  "parse_cost [] = Inl IndexError"
| "parse_cost (first # rest) = Inr (cumul_cost first)"

text \<open>A comprehension whose element expression may raise stops at the first error.\<close>

fun collect :: "('x \<Rightarrow> error + 'y) \<Rightarrow> 'x list \<Rightarrow> error + 'y list" where
  "collect f [] = Inr []"
| "collect f (x # xs) =
     (case f x of
        Inl e \<Rightarrow> Inl e
      | Inr y \<Rightarrow> (case collect f xs of Inl e \<Rightarrow> Inl e | Inr ys \<Rightarrow> Inr (y # ys)))"

definition element_if :: "bool \<Rightarrow> 'e list \<Rightarrow> nat \<Rightarrow> error + 'e option" where
  \<comment> \<open>\<open>seq[i] if flag else None\<close>\<close>
  "element_if flag seq i =
     (if flag then (case py_index seq (int i) of Inl e \<Rightarrow> Inl e | Inr x \<Rightarrow> Inr (Some x))
      else Inr None)"

definition remove_suboptimal_parses ::
  "('a, 'b, 'c::linordered_idom) Parses \<Rightarrow> bool \<Rightarrow> error + ('a, 'b, 'c) Parses" where
  "remove_suboptimal_parses parses just_one_flag =
     (case collect parse_cost parses of
        Inl e \<Rightarrow> Inl e
      | Inr costs \<Rightarrow>
          (case costs of
             [] \<Rightarrow> Inl ValueError
           | c # cs \<Rightarrow>
               let minimum = fold min cs c;
                   minimal_parses = filter (\<lambda>p. parse_cost p = Inr minimum) parses
               in if just_one_flag then
                    (case minimal_parses of [] \<Rightarrow> Inl IndexError | p # ps \<Rightarrow> Inr [p])
                  else Inr minimal_parses))"

text \<open>
  \<open>relate\<close>, \<open>parse\<close> and \<open>try_op\<close> call each other. From a start position within the
  sequences every call moves towards their ends. \<open>try_op\<close> asked to consume an element
  beyond an end never returns in Python: the recursion has no bottom there
  (RecursionError), or a memory entry cuts it short and the subscript in \<open>op_cost\<close>
  raises IndexError. The model answers \<open>RecursionError\<close> at once in that case.
  Python's limit on the depth of recursion for long sequences is not modelled.
\<close>

function relate ::
    "('a, 'b, 'c::linordered_idom) Arguments \<Rightarrow> Coordinates option \<Rightarrow> ('a, 'b, 'c) Memory \<Rightarrow>
     error + (('a, 'b, 'c) Parses \<times> ('a, 'b, 'c) Memory)"
  and parse ::
    "('a, 'b, 'c) Arguments \<Rightarrow> Coordinates \<Rightarrow> ('a, 'b, 'c) Memory \<Rightarrow>
     error + (('a, 'b, 'c) Parses \<times> ('a, 'b, 'c) Memory)"
  and try_op ::
    "('a, 'b, 'c) Arguments \<Rightarrow> Coordinates \<Rightarrow> xOperation \<Rightarrow> ('a, 'b, 'c) Memory \<Rightarrow>
     error + (('a, 'b, 'c) Parses \<times> ('a, 'b, 'c) Memory)"
where
  "relate args start memory =
     (let start_pos = (case start of None \<Rightarrow> (0, 0) | Some given \<Rightarrow> given)
      in case memory start_pos of
           Some parses \<Rightarrow> Inr (parses, memory)
         | None \<Rightarrow>
             (case parse args start_pos memory of
                Inl e \<Rightarrow> Inl e
              | Inr (parses, memory') \<Rightarrow> Inr (parses, memory'(start_pos \<mapsto> parses))))"
| "parse args start_pos memory =
     (let remaining_source = int (length (Arguments.source args)) - int (fst start_pos);
          remaining_target = int (length (Arguments.target args)) - int (snd start_pos)
      in if \<not> (remaining_source \<noteq> 0 \<or> remaining_target \<noteq> 0) then Inr ([], memory)
         else
           (case (if remaining_source \<noteq> 0 \<and> remaining_target \<noteq> 0
                  then try_op args start_pos xSUB memory else Inr ([], memory)) of
              Inl e \<Rightarrow> Inl e
            | Inr (parses1, memory1) \<Rightarrow>
           (case (if remaining_source \<noteq> 0
                  then try_op args start_pos xDEL memory1 else Inr ([], memory1)) of
              Inl e \<Rightarrow> Inl e
            | Inr (parses2, memory2) \<Rightarrow>
           (case (if remaining_target \<noteq> 0
                  then try_op args start_pos xINS memory2 else Inr ([], memory2)) of
              Inl e \<Rightarrow> Inl e
            | Inr (parses3, memory3) \<Rightarrow>
                let parses = parses1 @ parses2 @ parses3
                in if parses \<noteq> [] then
                     (case remove_suboptimal_parses parses (just_one args) of
                        Inl e \<Rightarrow> Inl e
                      | Inr optimal \<Rightarrow> Inr (optimal, memory3))
                   else Inr (parses, memory3)))))"
| "try_op args start_pos opus memory =
     (let consume_source = (if opus \<in> {xDEL, xSUB} then 1 else 0 :: nat);
          consume_target = (if opus \<in> {xINS, xSUB} then 1 else 0 :: nat);
          tail_start = (fst start_pos + consume_source, snd start_pos + consume_target)
      in if length (Arguments.source args) < fst tail_start
            \<or> length (Arguments.target args) < snd tail_start then Inl RecursionError
         else
           (case relate args (Some tail_start) memory of
              Inl e \<Rightarrow> Inl e
            | Inr (tail, memory') \<Rightarrow>
           (case op_cost args start_pos opus of
              Inl e \<Rightarrow> Inl e
            | Inr cost \<Rightarrow>
           (case element_if (consume_source \<noteq> 0) (Arguments.source args) (fst start_pos) of
              Inl e \<Rightarrow> Inl e
            | Inr s \<Rightarrow>
           (case element_if (consume_target \<noteq> 0) (Arguments.target args) (snd start_pos) of
              Inl e \<Rightarrow> Inl e
            | Inr t \<Rightarrow>
                let new_cell = \<lparr>xCell.source = s, target = t, this_cost = cost,
                                 cumul_cost = cost\<rparr>
                in if tail = [] then Inr ([[new_cell]], memory')
                   else
                     (case collect (\<lambda>p. case parse_cost p of
                                           Inl e \<Rightarrow> Inl e
                                         | Inr tail_cost \<Rightarrow>
                                             Inr (new_cell\<lparr>cumul_cost :=
                                                    xCell.this_cost new_cell + tail_cost\<rparr> # p))
                             tail of
                        Inl e \<Rightarrow> Inl e
                      | Inr parses \<Rightarrow> Inr (parses, memory')))))))"
  by pat_completeness auto
termination
  by (relation "measure (\<lambda>x. case x of
          Inl (args, start, memory) \<Rightarrow>
            (let p = (case start of None \<Rightarrow> (0, 0) | Some given \<Rightarrow> given)
             in 3 * ((length (Arguments.source args) - fst p)
                     + (length (Arguments.target args) - snd p)) + 2)
        | Inr (Inl (args, p, memory)) \<Rightarrow>
            3 * ((length (Arguments.source args) - fst p)
                 + (length (Arguments.target args) - snd p)) + 1
        | Inr (Inr (args, p, opus, memory)) \<Rightarrow>
            3 * ((length (Arguments.source args) - fst p)
                 + (length (Arguments.target args) - snd p)))")
     (auto simp: Let_def split: if_splits intro: xOperation.exhaust)

declare relate.simps [simp del] parse.simps [simp del] try_op.simps [simp del]

text \<open>
  The usual call, \<open>relate(arguments(source, target, costs, just_one))\<close>: a new memory,
  the start at the origin. The parses are kept, the memory is dropped.
\<close>

definition relate_arguments ::
  "'a list \<Rightarrow> 'b list \<Rightarrow> ('a, 'b, 'c::linordered_idom) CostFunctions \<Rightarrow> bool \<Rightarrow>
   error + ('a, 'b, 'c) Parses" where
  "relate_arguments src targ costs just_one_flag =
     (case arguments src targ costs just_one_flag of
        (args, memory) \<Rightarrow>
          (case relate args None memory of Inl e \<Rightarrow> Inl e | Inr (parses, memory') \<Rightarrow> Inr parses))"

text \<open>
  The widths used by \<open>vertical_align\<close>. \<open>getattr(cell, element_name)\<close> is modelled by
  passing the selector itself; \<open>x or ''\<close> replaces \<open>None\<close> and every falsy element by the
  empty string, so truthiness of elements is a parameter too.
\<close>

definition element_length ::
  "('e \<Rightarrow> pystr) \<Rightarrow> ('e \<Rightarrow> bool) \<Rightarrow> ('a, 'b, 'c) xCell \<Rightarrow>
   (('a, 'b, 'c) xCell \<Rightarrow> 'e option) \<Rightarrow> nat" where
  "element_length str truthy c element_name =
     (case element_name c of
        None \<Rightarrow> 0
      | Some element \<Rightarrow> if truthy element then length (str element) else 0)"

definition biggest_length_in_parse ::
  "('e \<Rightarrow> pystr) \<Rightarrow> ('e \<Rightarrow> bool) \<Rightarrow> ('a, 'b, 'c) Parse \<Rightarrow>
   (('a, 'b, 'c) xCell \<Rightarrow> 'e option) \<Rightarrow> error + nat" where
  "biggest_length_in_parse str truthy pars element_name =
     (case map (\<lambda>c. element_length str truthy c element_name) pars of
        [] \<Rightarrow> Inl ValueError
      | w # ws \<Rightarrow> Inr (fold max ws w))"

section \<open>The formatters of the three modules\<close>






subsection \<open>chart.vertical_alignment\<close>






subsection \<open>xducer.vertical_align\<close>



subsection \<open>Levenshtein.alignment\<close>





section \<open>Notions used to state and prove the properties\<close>

text \<open>The elements that are not absent, in order.\<close>

fun present :: "'e option list \<Rightarrow> 'e list" where
  "present [] = []"
| "present (None # rest) = present rest"
| "present (Some x # rest) = x # present rest"

text \<open>
  An alignment of \<open>xs\<close> with \<open>ys\<close>, engine-independent: a list of pairs of optional
  elements, never both absent, whose present elements spell \<open>xs\<close> and \<open>ys\<close>. Its cost is
  the sum of the costs of its steps.
\<close>

fun step_cost ::
  "('b \<Rightarrow> 'c) \<Rightarrow> ('a \<Rightarrow> 'c) \<Rightarrow> ('a \<Rightarrow> 'b \<Rightarrow> 'c) \<Rightarrow> 'a option \<times> 'b option \<Rightarrow>
   'c::linordered_idom" where
  "step_cost ins del sub (Some s, Some t) = sub s t"
| "step_cost ins del sub (Some s, None) = del s"
| "step_cost ins del sub (None, Some t) = ins t"
| "step_cost ins del sub (None, None) = 0"

definition alignment_cost ::
  "('b \<Rightarrow> 'c) \<Rightarrow> ('a \<Rightarrow> 'c) \<Rightarrow> ('a \<Rightarrow> 'b \<Rightarrow> 'c) \<Rightarrow> ('a option \<times> 'b option) list \<Rightarrow>
   'c::linordered_idom" where
  "alignment_cost ins del sub a = sum_list (map (step_cost ins del sub) a)"

definition is_alignment :: "('a option \<times> 'b option) list \<Rightarrow> 'a list \<Rightarrow> 'b list \<Rightarrow> bool" where
  "is_alignment a xs ys \<longleftrightarrow>
     (None, None) \<notin> set a \<and> present (map fst a) = xs \<and> present (map snd a) = ys"

text \<open>
  The cell that \<open>compute_min_edit_distance\<close> is expected to store at each position of
  the matrix, written as a recursion on the position.
\<close>

definition ins_step :: "('a, 'b, 'c::linordered_idom) PairAnalysis \<Rightarrow> 'c Cell \<Rightarrow> 'b \<Rightarrow> 'c Cell" where
  "ins_step an before t =
     \<lparr>Cell.this_cost = ins_cost an t,
      cumulative_cost = cumulative_cost before + ins_cost an t, operation = INS\<rparr>"

definition del_step :: "('a, 'b, 'c::linordered_idom) PairAnalysis \<Rightarrow> 'c Cell \<Rightarrow> 'a \<Rightarrow> 'c Cell" where
  "del_step an before s =
     \<lparr>Cell.this_cost = del_cost an s,
      cumulative_cost = cumulative_cost before + del_cost an s, operation = DEL\<rparr>"

definition sub_step ::
  "('a, 'b, 'c::linordered_idom) PairAnalysis \<Rightarrow> 'c Cell \<Rightarrow> 'a \<Rightarrow> 'b \<Rightarrow> 'c Cell" where
  "sub_step an before s t =
     \<lparr>Cell.this_cost = sub_cost an s t,
      cumulative_cost = cumulative_cost before + sub_cost an s t, operation = SUB\<rparr>"

definition choose_cell :: "('c::linordered_idom) Cell \<Rightarrow> 'c Cell \<Rightarrow> 'c Cell \<Rightarrow> 'c Cell" where
  "choose_cell ins_cell sub_cell del_cell =
     (let min_cost = min (min (cumulative_cost ins_cell) (cumulative_cost sub_cell))
                         (cumulative_cost del_cell)
      in if min_cost = cumulative_cost sub_cell then sub_cell
         else if min_cost = cumulative_cost del_cell then del_cell
         else ins_cell)"

fun expected_cell :: "('a, 'b, 'c::linordered_idom) PairAnalysis \<Rightarrow> nat \<Rightarrow> nat \<Rightarrow> 'c Cell" where
  "expected_cell an 0 0 = \<lparr>Cell.this_cost = 0, cumulative_cost = 0, operation = START\<rparr>"
| "expected_cell an (Suc i) 0 =
     ins_step an (expected_cell an i 0) (PairAnalysis.target an ! i)"
| "expected_cell an 0 (Suc j) =
     del_step an (expected_cell an 0 j) (PairAnalysis.source an ! j)"
| "expected_cell an (Suc i) (Suc j) =
     choose_cell
       (ins_step an (expected_cell an i (Suc j)) (PairAnalysis.target an ! i))
       (sub_step an (expected_cell an i j) (PairAnalysis.source an ! j)
          (PairAnalysis.target an ! i))
       (del_step an (expected_cell an (Suc i) j) (PairAnalysis.source an ! j))"

text \<open>
  The one cell that \<open>compute_min_edit_distance\<close> reads without having written it is the
  origin; \<open>origin_ok\<close> says that it is the START cell of the module's initial matrix.
  \<open>filled an m\<close> is \<open>m\<close> with the expected cell at every position of the analysis.
\<close>

definition origin_ok :: "('c::linordered_idom) DistanceMatrix \<Rightarrow> bool" where
  "origin_ok m \<longleftrightarrow>
     m (0, 0) = Some \<lparr>Cell.this_cost = 0, cumulative_cost = 0, operation = START\<rparr>"

definition filled ::
  "('a, 'b, 'c::linordered_idom) PairAnalysis \<Rightarrow> 'c DistanceMatrix \<Rightarrow> 'c DistanceMatrix" where
  "filled an m =
     (\<lambda>key. if fst key \<le> length (PairAnalysis.target an)
                \<and> snd key \<le> length (PairAnalysis.source an)
             then Some (expected_cell an (fst key) (snd key)) else m key)"

text \<open>
  What is expected of a backtrace that ends at position \<open>(i, j)\<close> of the matrix: it spells
  the two prefixes, each step carries its operation and the cost of it, the incremental costs
  add up to the cumulative cost of the cell at \<open>(i, j)\<close>, and that cell is its last step.
\<close>

fun step_operation :: "'a option \<times> 'b option \<Rightarrow> Operation" where
  "step_operation (Some s, Some t) = SUB"
| "step_operation (Some s, None) = DEL"
| "step_operation (None, Some t) = INS"
| "step_operation (None, None) = START"

definition trace_ok ::
  "('a, 'b, 'c::linordered_idom) PairAnalysis \<Rightarrow> ('a, 'b, 'c) Backtrace \<Rightarrow> nat \<Rightarrow> nat \<Rightarrow> bool" where
  "trace_ok an bt i j \<longleftrightarrow>
     present (map EditStep.source bt) = take j (PairAnalysis.source an) \<and>
     present (map EditStep.target bt) = take i (PairAnalysis.target an) \<and>
     (\<forall>st \<in> set bt.
        (EditStep.source st, EditStep.target st) \<noteq> (None, None) \<and>
        Cell.this_cost (cell st) =
          step_cost (ins_cost an) (del_cost an) (sub_cost an)
            (EditStep.source st, EditStep.target st) \<and>
        Cell.operation (cell st) = step_operation (EditStep.source st, EditStep.target st)) \<and>
     sum_list (map (\<lambda>st. Cell.this_cost (cell st)) bt) = cumulative_cost (expected_cell an i j) \<and>
     (bt \<noteq> [] \<longrightarrow> cell (last bt) = expected_cell an i j)"

text \<open>
  The enumerator without its memory: the parses of a pair of suffixes, by recursion on
  the suffixes. \<open>relate\<close> is proved below to return exactly these.
\<close>

definition path_cost :: "('a, 'b, 'c::linordered_idom) Parse \<Rightarrow> 'c" where
  "path_cost p = (case p of [] \<Rightarrow> 0 | first # rest \<Rightarrow> cumul_cost first)"

definition extend_tail ::
  "('a, 'b, 'c::linordered_idom) xCell \<Rightarrow> ('a, 'b, 'c) Parses \<Rightarrow> ('a, 'b, 'c) Parses" where
  "extend_tail c tail =
     (if tail = [] then [[c]]
      else map (\<lambda>p. c\<lparr>cumul_cost := xCell.this_cost c + path_cost p\<rparr> # p) tail)"

definition optimal_parses ::
  "bool \<Rightarrow> ('a, 'b, 'c::linordered_idom) Parses \<Rightarrow> ('a, 'b, 'c) Parses" where
  "optimal_parses one parses =
     (let minimal = filter (\<lambda>p. path_cost p = Min (path_cost ` set parses)) parses
      in if one then take 1 minimal else minimal)"

definition sub_cell :: "('a, 'b, 'c) CostFunctions \<Rightarrow> 'a \<Rightarrow> 'b \<Rightarrow> ('a, 'b, 'c) xCell" where
  "sub_cell cf x y = \<lparr>xCell.source = Some x, target = Some y,
     this_cost = substitute_fn cf x y, cumul_cost = substitute_fn cf x y\<rparr>"

definition del_cell :: "('a, 'b, 'c) CostFunctions \<Rightarrow> 'a \<Rightarrow> ('a, 'b, 'c) xCell" where
  "del_cell cf x = \<lparr>xCell.source = Some x, target = None,
     this_cost = delete_fn cf x, cumul_cost = delete_fn cf x\<rparr>"

definition ins_cell :: "('a, 'b, 'c) CostFunctions \<Rightarrow> 'b \<Rightarrow> ('a, 'b, 'c) xCell" where
  "ins_cell cf y = \<lparr>xCell.source = None, target = Some y,
     this_cost = insert_fn cf y, cumul_cost = insert_fn cf y\<rparr>"

fun suffix_parses ::
  "('a, 'b, 'c::linordered_idom) CostFunctions \<Rightarrow> bool \<Rightarrow> 'a list \<Rightarrow> 'b list \<Rightarrow>
   ('a, 'b, 'c) Parses" where
  "suffix_parses cf one [] [] = []"
| "suffix_parses cf one (x # xs) [] =
     optimal_parses one (extend_tail (del_cell cf x) (suffix_parses cf one xs []))"
| "suffix_parses cf one [] (y # ys) =
     optimal_parses one (extend_tail (ins_cell cf y) (suffix_parses cf one [] ys))"
| "suffix_parses cf one (x # xs) (y # ys) =
     optimal_parses one
       (extend_tail (sub_cell cf x y) (suffix_parses cf one xs ys)
        @ extend_tail (del_cell cf x) (suffix_parses cf one xs (y # ys))
        @ extend_tail (ins_cell cf y) (suffix_parses cf one (x # xs) ys))"

text \<open>The least cost of aligning two suffixes, by the same recursion.\<close>

fun suffix_cost ::
  "('a, 'b, 'c::linordered_idom) CostFunctions \<Rightarrow> 'a list \<Rightarrow> 'b list \<Rightarrow> 'c" where
  "suffix_cost cf [] [] = 0"
| "suffix_cost cf (x # xs) [] = delete_fn cf x + suffix_cost cf xs []"
| "suffix_cost cf [] (y # ys) = insert_fn cf y + suffix_cost cf [] ys"
| "suffix_cost cf (x # xs) (y # ys) =
     min (substitute_fn cf x y + suffix_cost cf xs ys)
         (min (delete_fn cf x + suffix_cost cf xs (y # ys))
              (insert_fn cf y + suffix_cost cf (x # xs) ys))"

text \<open>
  What is expected of a parse of the suffixes \<open>xs\<close> and \<open>ys\<close>: it has a step, it spells
  both, each step carries the cost of its operation, and the cumulative cost of each step
  is its own cost plus the cost of the rest of the parse.
\<close>

fun cumul_ok :: "('a, 'b, 'c::linordered_idom) Parse \<Rightarrow> bool" where
  "cumul_ok [] = True"
| "cumul_ok (c # rest) =
     (cumul_cost c = xCell.this_cost c + path_cost rest \<and> cumul_ok rest)"

definition parse_ok ::
  "('a, 'b, 'c::linordered_idom) CostFunctions \<Rightarrow> ('a, 'b, 'c) Parse \<Rightarrow> 'a list \<Rightarrow> 'b list \<Rightarrow>
   bool" where
  "parse_ok cf p xs ys \<longleftrightarrow>
     p \<noteq> [] \<and>
     present (map xCell.source p) = xs \<and> present (map xCell.target p) = ys \<and>
     (\<forall>c \<in> set p.
        (xCell.source c, xCell.target c) \<noteq> (None, None) \<and>
        xCell.this_cost c =
          step_cost (insert_fn cf) (delete_fn cf) (substitute_fn cf)
            (xCell.source c, xCell.target c)) \<and>
     cumul_ok p"

text \<open>A memory is sound when each entry holds the parses of the suffixes at its key.\<close>

definition expected_parses ::
  "('a, 'b, 'c::linordered_idom) Arguments \<Rightarrow> Coordinates \<Rightarrow> ('a, 'b, 'c) Parses" where
  "expected_parses args pos =
     suffix_parses (cost_functions args) (just_one args)
       (drop (fst pos) (Arguments.source args)) (drop (snd pos) (Arguments.target args))"

definition memory_ok :: "('a, 'b, 'c::linordered_idom) Arguments \<Rightarrow> ('a, 'b, 'c) Memory \<Rightarrow> bool" where
  "memory_ok args memory \<longleftrightarrow>
     (\<forall>pos parses. memory pos = Some parses \<longrightarrow>
        fst pos \<le> length (Arguments.source args) \<and> snd pos \<le> length (Arguments.target args) \<and>
        parses = expected_parses args pos)"

text \<open>
  \<open>relate\<close> is right at a position when, from every sound memory, it returns the parses
  expected there and leaves a sound memory.
\<close>

definition relate_ok :: "('a, 'b, 'c::linordered_idom) Arguments \<Rightarrow> Coordinates \<Rightarrow> bool" where
  "relate_ok args pos \<longleftrightarrow>
     (\<forall>mem. memory_ok args mem \<longrightarrow>
        (\<exists>mem'. relate args (Some pos) mem = Inr (expected_parses args pos, mem')
                \<and> memory_ok args mem'))"

text \<open>
  The object of levenshtein.py seen through chart.py: its sequences and cost methods as a
  \<open>PairAnalysis\<close> (the widths play no part in the matrix), and a cell, a matrix and a step
  of chart.py as the cell, the matrix and the unit that levenshtein.py stores for them.
\<close>

definition as_analysis :: "('a, 'b, 'c) Levenshtein \<Rightarrow> ('a, 'b, 'c) PairAnalysis" where
  "as_analysis self =
     \<lparr>PairAnalysis.source = sequence1 self, source_widest = 0,
      target = sequence2 self, target_widest = 0,
      ins_cost = Levenshtein.ins_cost self, del_cost = Levenshtein.del_cost self,
      sub_cost = Levenshtein.sub_cost self\<rparr>"

fun op_tag :: "Operation \<Rightarrow> string" where
  "op_tag START = lev_START"
| "op_tag INS = INSERT"
| "op_tag DEL = DELETE"
| "op_tag SUB = SUBSTITUTE"

definition as_lev_cell :: "'c Cell \<Rightarrow> 'c LevCell" where
  "as_lev_cell c = \<lparr>num = cumulative_cost c, operation = op_tag (Cell.operation c)\<rparr>"

definition as_distance :: "'c DistanceMatrix \<Rightarrow> 'c Distance" where
  "as_distance m = (\<lambda>key. map_option as_lev_cell (m key))"

definition as_unit :: "('a, 'b, 'c) EditStep \<Rightarrow> ('a, 'b, 'c) AlignmentUnit" where
  "as_unit st = (EditStep.source st, EditStep.target st, cumulative_cost (cell st))"


section \<open>The matrix filled by \<open>compute_min_edit_distance\<close>\<close>

lemma enumerate_shift: "map (\<lambda>(zero_based, anything). (Suc zero_based, anything)) (enumerate n seq) = enumerate (Suc n) seq"
  by (induction seq arbitrary: n) auto

lemma enumerate1_eq: "enumerate1 seq = enumerate (Suc 0) seq"
  by (simp add: enumerate1_def enumerate_shift)

lemma enumerate_drop_step:
  "k < length xs \<Longrightarrow> enumerate (Suc k) (drop k xs) = (Suc k, xs ! k) # enumerate (Suc (Suc k)) (drop (Suc k) xs)"
  by (simp flip: Cons_nth_drop_Suc)

lemma mec_ins:
  "make_edited_cell an m (Suc i, j) None (Some t) =
     (case m (i, j) of None \<Rightarrow> Inl KeyError | Some c \<Rightarrow> Inr (ins_step an c t))"
  by (simp add: make_edited_cell.simps matrix_item_def ins_step_def Let_def split: option.split)

lemma mec_del:
  "make_edited_cell an m (i, Suc j) (Some s) None =
     (case m (i, j) of None \<Rightarrow> Inl KeyError | Some c \<Rightarrow> Inr (del_step an c s))"
  by (simp add: make_edited_cell.simps matrix_item_def del_step_def Let_def split: option.split)

lemma mec_sub:
  "make_edited_cell an m (Suc i, Suc j) (Some s) (Some t) =
     (case m (i, j) of None \<Rightarrow> Inl KeyError | Some c \<Rightarrow> Inr (sub_step an c s t))"
  by (simp add: make_edited_cell.simps matrix_item_def sub_step_def Let_def split: option.split)

lemma margin_target_result:
  "k \<le> length (PairAnalysis.target an) \<Longrightarrow> m (k, 0) = Some (expected_cell an k 0) \<Longrightarrow>
   margin_target an (enumerate (Suc k) (drop k (PairAnalysis.target an))) m =
     Inr (\<lambda>key. if snd key = 0 \<and> k < fst key \<and> fst key \<le> length (PairAnalysis.target an)
                then Some (expected_cell an (fst key) 0) else m key)"
proof (induction "length (PairAnalysis.target an) - k" arbitrary: k m)
  case 0
  then have "k = length (PairAnalysis.target an)" by simp
  then show ?case by (auto intro!: ext)
next
  case (Suc n)
  then have lt: "k < length (PairAnalysis.target an)" by simp
  let ?c = "expected_cell an (Suc k) 0"
  have step: "make_edited_cell an m (Suc k, 0) None (Some (PairAnalysis.target an ! k)) = Inr ?c"
    using Suc.prems(2) by (simp add: mec_ins)
  have ih: "margin_target an (enumerate (Suc (Suc k)) (drop (Suc k) (PairAnalysis.target an)))
              (m((Suc k, 0) \<mapsto> ?c)) =
            Inr (\<lambda>key. if snd key = 0 \<and> Suc k < fst key \<and> fst key \<le> length (PairAnalysis.target an)
                then Some (expected_cell an (fst key) 0) else (m((Suc k, 0) \<mapsto> ?c)) key)"
    using Suc.hyps(2) lt by (intro Suc.hyps(1)) auto
  show ?case
    unfolding enumerate_drop_step [OF lt]
    apply (simp only: margin_target.simps Let_def step sum.case ih)
    apply (rule arg_cong [where f = Inr])
    apply (rule ext)
    using lt apply (auto simp: less_Suc_eq)
    done
qed


lemma margin_source_result:
  "k \<le> length (PairAnalysis.source an) \<Longrightarrow> m (0, k) = Some (expected_cell an 0 k) \<Longrightarrow>
   margin_source an (enumerate (Suc k) (drop k (PairAnalysis.source an))) m =
     Inr (\<lambda>key. if fst key = 0 \<and> k < snd key \<and> snd key \<le> length (PairAnalysis.source an)
                then Some (expected_cell an 0 (snd key)) else m key)"
proof (induction "length (PairAnalysis.source an) - k" arbitrary: k m)
  case 0
  then have "k = length (PairAnalysis.source an)" by simp
  then show ?case by (auto intro!: ext)
next
  case (Suc n)
  then have lt: "k < length (PairAnalysis.source an)" by simp
  let ?c = "expected_cell an 0 (Suc k)"
  have step: "make_edited_cell an m (0, Suc k) (Some (PairAnalysis.source an ! k)) None = Inr ?c"
    using Suc.prems(2) by (simp add: mec_del)
  have ih: "margin_source an (enumerate (Suc (Suc k)) (drop (Suc k) (PairAnalysis.source an)))
              (m((0, Suc k) \<mapsto> ?c)) =
            Inr (\<lambda>key. if fst key = 0 \<and> Suc k < snd key \<and> snd key \<le> length (PairAnalysis.source an)
                then Some (expected_cell an 0 (snd key)) else (m((0, Suc k) \<mapsto> ?c)) key)"
    using Suc.hyps(2) lt by (intro Suc.hyps(1)) auto
  show ?case
    unfolding enumerate_drop_step [OF lt]
    apply (simp only: margin_source.simps Let_def step sum.case ih)
    apply (rule arg_cong [where f = Inr])
    apply (rule ext)
    using lt apply (auto simp: less_Suc_eq)
    done
qed

lemma body_row_result:
  "i < length (PairAnalysis.target an) \<Longrightarrow> k \<le> length (PairAnalysis.source an) \<Longrightarrow>
   (\<And>j. j \<le> length (PairAnalysis.source an) \<Longrightarrow> m (i, j) = Some (expected_cell an i j)) \<Longrightarrow>
   (\<And>j. j \<le> k \<Longrightarrow> m (Suc i, j) = Some (expected_cell an (Suc i) j)) \<Longrightarrow>
   body_row an (Suc i) (PairAnalysis.target an ! i)
       (enumerate (Suc k) (drop k (PairAnalysis.source an))) m =
     Inr (\<lambda>key. if fst key = Suc i \<and> k < snd key \<and> snd key \<le> length (PairAnalysis.source an)
                then Some (expected_cell an (Suc i) (snd key)) else m key)"
proof (induction "length (PairAnalysis.source an) - k" arbitrary: k m)
  case 0
  then have "k = length (PairAnalysis.source an)" by simp
  then show ?case by (auto intro!: ext)
next
  case (Suc n)
  then have lt: "k < length (PairAnalysis.source an)" by simp
  let ?s = "PairAnalysis.source an ! k" and ?t = "PairAnalysis.target an ! i"
  let ?c = "expected_cell an (Suc i) (Suc k)"
  have up: "m (i, Suc k) = Some (expected_cell an i (Suc k))"
    and diag: "m (i, k) = Some (expected_cell an i k)"
    and left: "m (Suc i, k) = Some (expected_cell an (Suc i) k)"
    using Suc.prems(3) [of "Suc k"] Suc.prems(3) [of k] Suc.prems(4) [of k] lt by auto
  have ins: "make_edited_cell an m (Suc i, Suc k) None (Some ?t) =
               Inr (ins_step an (expected_cell an i (Suc k)) ?t)"
    by (simp add: mec_ins up)
  have sub: "make_edited_cell an m (Suc i, Suc k) (Some ?s) (Some ?t) =
               Inr (sub_step an (expected_cell an i k) ?s ?t)"
    by (simp add: mec_sub diag)
  have del: "make_edited_cell an m (Suc i, Suc k) (Some ?s) None =
               Inr (del_step an (expected_cell an (Suc i) k) ?s)"
    by (simp add: mec_del left)
  have ih: "body_row an (Suc i) ?t (enumerate (Suc (Suc k)) (drop (Suc k) (PairAnalysis.source an)))
              (m((Suc i, Suc k) \<mapsto> ?c)) =
            Inr (\<lambda>key. if fst key = Suc i \<and> Suc k < snd key \<and> snd key \<le> length (PairAnalysis.source an)
                then Some (expected_cell an (Suc i) (snd key)) else (m((Suc i, Suc k) \<mapsto> ?c)) key)"
  proof (rule Suc.hyps(1))
    show "n = length (PairAnalysis.source an) - Suc k" using Suc.hyps(2) by simp
    show "i < length (PairAnalysis.target an)" by (rule Suc.prems(1))
    show "Suc k \<le> length (PairAnalysis.source an)" using lt by simp
    show "(m((Suc i, Suc k) \<mapsto> ?c)) (i, j) = Some (expected_cell an i j)"
      if "j \<le> length (PairAnalysis.source an)" for j
      using Suc.prems(3) [OF that] by simp
    show "(m((Suc i, Suc k) \<mapsto> ?c)) (Suc i, j) = Some (expected_cell an (Suc i) j)"
      if "j \<le> Suc k" for j
      using Suc.prems(4) [of j] that by (cases "j = Suc k") auto
  qed
  have chosen: "(let min_cost = min (min (cumulative_cost (ins_step an (expected_cell an i (Suc k)) ?t))
                                     (cumulative_cost (sub_step an (expected_cell an i k) ?s ?t)))
                                (cumulative_cost (del_step an (expected_cell an (Suc i) k) ?s))
                 in if min_cost = cumulative_cost (sub_step an (expected_cell an i k) ?s ?t)
                    then sub_step an (expected_cell an i k) ?s ?t
                    else if min_cost = cumulative_cost (del_step an (expected_cell an (Suc i) k) ?s)
                    then del_step an (expected_cell an (Suc i) k) ?s
                    else ins_step an (expected_cell an i (Suc k)) ?t) = ?c"
    by (simp add: choose_cell_def)
  show ?case
    unfolding enumerate_drop_step [OF lt]
    apply (subst body_row.simps)
    apply (simp only: Let_def ins sub del sum.case)
    apply (simp only: chosen [unfolded Let_def] ih)
    apply (rule arg_cong [where f = Inr])
    apply (rule ext)
    using lt apply (auto simp: less_Suc_eq)
    done
qed

lemma body_result:
  "k \<le> length (PairAnalysis.target an) \<Longrightarrow>
   (\<And>i j. i \<le> k \<Longrightarrow> j \<le> length (PairAnalysis.source an) \<Longrightarrow>
      m (i, j) = Some (expected_cell an i j)) \<Longrightarrow>
   (\<And>i. i \<le> length (PairAnalysis.target an) \<Longrightarrow> m (i, 0) = Some (expected_cell an i 0)) \<Longrightarrow>
   body an (enumerate (Suc k) (drop k (PairAnalysis.target an))) m =
     Inr (\<lambda>key. if k < fst key \<and> fst key \<le> length (PairAnalysis.target an)
                   \<and> 0 < snd key \<and> snd key \<le> length (PairAnalysis.source an)
                then Some (expected_cell an (fst key) (snd key)) else m key)"
proof (induction "length (PairAnalysis.target an) - k" arbitrary: k m)
  case 0
  then have "k = length (PairAnalysis.target an)" by simp
  then show ?case by (auto intro!: ext)
next
  case (Suc n)
  then have lt: "k < length (PairAnalysis.target an)" by simp
  let ?m1 = "\<lambda>key. if fst key = Suc k \<and> 0 < snd key \<and> snd key \<le> length (PairAnalysis.source an)
                then Some (expected_cell an (Suc k) (snd key)) else m key"
  have row: "body_row an (Suc k) (PairAnalysis.target an ! k)
               (enumerate1 (PairAnalysis.source an)) m = Inr ?m1"
  proof -
    have "body_row an (Suc k) (PairAnalysis.target an ! k)
            (enumerate (Suc 0) (drop 0 (PairAnalysis.source an))) m = Inr ?m1"
    proof (rule body_row_result)
      show "k < length (PairAnalysis.target an)" by (rule lt)
      show "0 \<le> length (PairAnalysis.source an)" by simp
      show "m (k, j) = Some (expected_cell an k j)" if "j \<le> length (PairAnalysis.source an)" for j
        using Suc.prems(2) [of k j] that by simp
      show "m (Suc k, j) = Some (expected_cell an (Suc k) j)" if "j \<le> 0" for j
        using Suc.prems(3) [of "Suc k"] that lt by simp
    qed
    then show ?thesis by (simp add: enumerate1_eq)
  qed
  have ih: "body an (enumerate (Suc (Suc k)) (drop (Suc k) (PairAnalysis.target an))) ?m1 =
     Inr (\<lambda>key. if Suc k < fst key \<and> fst key \<le> length (PairAnalysis.target an)
                   \<and> 0 < snd key \<and> snd key \<le> length (PairAnalysis.source an)
                then Some (expected_cell an (fst key) (snd key)) else ?m1 key)"
  proof (rule Suc.hyps(1))
    show "n = length (PairAnalysis.target an) - Suc k" using Suc.hyps(2) by simp
    show "Suc k \<le> length (PairAnalysis.target an)" using lt by simp
    show "?m1 (i, j) = Some (expected_cell an i j)"
      if "i \<le> Suc k" "j \<le> length (PairAnalysis.source an)" for i j
    proof (cases "i = Suc k")
      case True
      then show ?thesis using Suc.prems(3) [of "Suc k"] lt that by (cases "j = 0") auto
    next
      case False
      then show ?thesis using Suc.prems(2) [of i j] that by simp
    qed
    show "?m1 (i, 0) = Some (expected_cell an i 0)" if "i \<le> length (PairAnalysis.target an)" for i
      using Suc.prems(3) [OF that] by simp
  qed
  show ?case
    unfolding enumerate_drop_step [OF lt]
    apply (simp only: body.simps row sum.case ih)
    apply (rule arg_cong [where f = Inr])
    apply (rule ext)
    using lt apply (auto simp: less_Suc_eq)
    done
qed

lemma compute_result:
  assumes "origin_ok m"
  shows "compute_min_edit_distance an m = Inr (filled an m)"
proof -
  let ?T = "length (PairAnalysis.target an)" and ?S = "length (PairAnalysis.source an)"
  let ?m1 = "\<lambda>key. if snd key = 0 \<and> 0 < fst key \<and> fst key \<le> ?T
                then Some (expected_cell an (fst key) 0) else m key"
  let ?m2 = "\<lambda>key. if fst key = 0 \<and> 0 < snd key \<and> snd key \<le> ?S
                then Some (expected_cell an 0 (snd key)) else ?m1 key"
  have m0: "m (0, 0) = Some (expected_cell an 0 0)" using assms by (simp add: origin_ok_def)
  have one: "margin_target an (enumerate1 (PairAnalysis.target an)) m = Inr ?m1"
    using margin_target_result [of 0 an m] m0 by (simp add: enumerate1_eq)
  have two: "margin_source an (enumerate1 (PairAnalysis.source an)) ?m1 = Inr ?m2"
    using margin_source_result [of 0 an ?m1] m0 by (simp add: enumerate1_eq)
  have three: "body an (enumerate1 (PairAnalysis.target an)) ?m2 =
     Inr (\<lambda>key. if 0 < fst key \<and> fst key \<le> ?T \<and> 0 < snd key \<and> snd key \<le> ?S
                then Some (expected_cell an (fst key) (snd key)) else ?m2 key)"
  proof -
    have "body an (enumerate (Suc 0) (drop 0 (PairAnalysis.target an))) ?m2 =
     Inr (\<lambda>key. if 0 < fst key \<and> fst key \<le> ?T \<and> 0 < snd key \<and> snd key \<le> ?S
                then Some (expected_cell an (fst key) (snd key)) else ?m2 key)"
    proof (rule body_result)
      show "0 \<le> ?T" by simp
      show "?m2 (i, j) = Some (expected_cell an i j)" if "i \<le> 0" "j \<le> ?S" for i j
        using that m0 by (cases "j = 0") auto
      show "?m2 (i, 0) = Some (expected_cell an i 0)" if "i \<le> ?T" for i
        using that m0 by (cases "i = 0") auto
    qed
    then show ?thesis by (simp add: enumerate1_eq)
  qed
  show ?thesis
    unfolding compute_min_edit_distance_def filled_def
    apply (simp only: one two three sum.case)
    apply (rule arg_cong [where f = Inr])
    apply (rule ext)
    using m0 apply (auto simp: neq0_conv)
    done
qed

lemma greatest_width_eq:
  "greatest_width is_mark str elements =
     (if elements = [] then Inl ValueError
      else Inr (Max (print_len is_mark str ` set elements)))"
proof (cases elements)
  case Nil
  then show ?thesis by (simp add: greatest_width_def)
next
  case (Cons e es)
  then show ?thesis
    by (simp add: greatest_width_def Max.set_eq_fold [symmetric])
qed

lemma levenshtein_result:
  assumes "origin_ok m"
  shows "levenshtein is_mark str_s str_t src targ ins_costs del_costs sub_costs m =
     (if src = [] \<or> targ = [] then Inl ValueError
      else
        (let an = \<lparr>PairAnalysis.source = src,
                    source_widest = Max (print_len is_mark str_s ` set src),
                    target = targ,
                    target_widest = Max (print_len is_mark str_t ` set targ),
                    ins_cost = ins_costs, del_cost = del_costs, sub_cost = sub_costs\<rparr>
         in Inr (an, filled an m)))"
  by (simp add: levenshtein_def greatest_width_eq compute_result [OF assms] Let_def)

lemma min_edit_distance_filled:
  "min_edit_distance an (filled an m) =
     Inr (cumulative_cost (expected_cell an (length (PairAnalysis.target an))
                                           (length (PairAnalysis.source an))))"
  by (simp add: min_edit_distance_def matrix_item_def filled_def)

lemma choose_cell_cumulative:
  "cumulative_cost (choose_cell i s d) =
     min (min (cumulative_cost i) (cumulative_cost s)) (cumulative_cost d)"
  by (auto simp: choose_cell_def Let_def min_def)

lemma choose_cell_cases:
  "choose_cell i s d = s \<or> choose_cell i s d = d \<or> choose_cell i s d = i"
  by (simp add: choose_cell_def Let_def)


lemma origin_ok_initial: "origin_ok initial_matrix"
  by (simp add: origin_ok_def initial_matrix_def)

lemma origin_ok_filled: "origin_ok m \<Longrightarrow> origin_ok (filled an m)"
  by (simp add: origin_ok_def filled_def)

lemma filled_in_range:
  "i \<le> length (PairAnalysis.target an) \<Longrightarrow> j \<le> length (PairAnalysis.source an) \<Longrightarrow>
   filled an m (i, j) = Some (expected_cell an i j)"
  by (simp add: filled_def)

lemma filled_outside:
  "\<not> (i \<le> length (PairAnalysis.target an) \<and> j \<le> length (PairAnalysis.source an)) \<Longrightarrow>
   filled an m (i, j) = m (i, j)"
  by (auto simp add: filled_def)

section \<open>The backtrace of a filled matrix\<close>

lemma py_index_nat: "k < length xs \<Longrightarrow> py_index xs (int k) = Inr (xs ! k)"
  by (simp add: py_index_def)

lemma matrix_item_nat:
  "matrix_item M (int i, int j) = (case M (i, j) of None \<Rightarrow> Inl KeyError | Some c \<Rightarrow> Inr c)"
  by (simp add: matrix_item_def)

lemma loop_end: "backtrace_loop an M 0 0 acc = Inr acc"
  by (simp add: backtrace_loop.simps)

lemma loop_SUB:
  assumes "j < length (PairAnalysis.source an)" "i < length (PairAnalysis.target an)"
    and "M (Suc i, Suc j) = Some c" "operation c = SUB"
  shows "backtrace_loop an M (int (Suc j)) (int (Suc i)) acc =
         backtrace_loop an M (int j) (int i)
           (\<lparr>EditStep.source = Some (PairAnalysis.source an ! j),
             target = Some (PairAnalysis.target an ! i), cell = c\<rparr> # acc)"
proof -
  have a: "int (Suc j) - 1 = int j" "int (Suc i) - 1 = int i" by simp_all
  show ?thesis
    apply (subst backtrace_loop.simps)
    apply (simp only: a matrix_item_nat assms option.case sum.case py_index_nat)
    apply simp
    done
qed

lemma loop_INS:
  assumes "i < length (PairAnalysis.target an)"
    and "M (Suc i, j) = Some c" "operation c = INS"
  shows "backtrace_loop an M (int j) (int (Suc i)) acc =
         backtrace_loop an M (int j) (int i)
           (\<lparr>EditStep.source = None,
             target = Some (PairAnalysis.target an ! i), cell = c\<rparr> # acc)"
proof -
  have a: "int (Suc i) - 1 = int i" by simp
  show ?thesis
    apply (subst backtrace_loop.simps)
    apply (simp only: a matrix_item_nat assms option.case sum.case py_index_nat)
    apply simp
    done
qed

lemma loop_DEL:
  assumes "j < length (PairAnalysis.source an)"
    and "M (i, Suc j) = Some c" "operation c = DEL"
  shows "backtrace_loop an M (int (Suc j)) (int i) acc =
         backtrace_loop an M (int j) (int i)
           (\<lparr>EditStep.source = Some (PairAnalysis.source an ! j),
             target = None, cell = c\<rparr> # acc)"
proof -
  have a: "int (Suc j) - 1 = int j" by simp
  show ?thesis
    apply (subst backtrace_loop.simps)
    apply (simp only: a matrix_item_nat assms option.case sum.case py_index_nat)
    apply simp
    done
qed

lemma present_append: "present (xs @ ys) = present xs @ present ys"
  by (induction xs rule: present.induct) auto

lemma trace_ok_Nil: "trace_ok an [] 0 0"
  by (simp add: trace_ok_def)

lemma trace_ok_snoc_INS:
  assumes "trace_ok an bt i j" "i < length (PairAnalysis.target an)"
    and "c = ins_step an (expected_cell an i j) (PairAnalysis.target an ! i)"
    and "expected_cell an (Suc i) j = c"
  shows "trace_ok an (bt @ [\<lparr>EditStep.source = None,
             target = Some (PairAnalysis.target an ! i), cell = c\<rparr>]) (Suc i) j"
  using assms
  by (auto simp: trace_ok_def present_append take_Suc_conv_app_nth ins_step_def)

lemma trace_ok_snoc_DEL:
  assumes "trace_ok an bt i j" "j < length (PairAnalysis.source an)"
    and "c = del_step an (expected_cell an i j) (PairAnalysis.source an ! j)"
    and "expected_cell an i (Suc j) = c"
  shows "trace_ok an (bt @ [\<lparr>EditStep.source = Some (PairAnalysis.source an ! j),
             target = None, cell = c\<rparr>]) i (Suc j)"
  using assms
  by (auto simp: trace_ok_def present_append take_Suc_conv_app_nth del_step_def)

lemma trace_ok_snoc_SUB:
  assumes "trace_ok an bt i j" "j < length (PairAnalysis.source an)"
    "i < length (PairAnalysis.target an)"
    and "c = sub_step an (expected_cell an i j) (PairAnalysis.source an ! j)
               (PairAnalysis.target an ! i)"
    and "expected_cell an (Suc i) (Suc j) = c"
  shows "trace_ok an (bt @ [\<lparr>EditStep.source = Some (PairAnalysis.source an ! j),
             target = Some (PairAnalysis.target an ! i), cell = c\<rparr>]) (Suc i) (Suc j)"
  using assms
  by (auto simp: trace_ok_def present_append take_Suc_conv_app_nth sub_step_def)


lemma operation_steps [simp]:
  "operation (ins_step an c t) = INS" "operation (del_step an c s) = DEL"
  "operation (sub_step an c s t) = SUB"
  by (simp_all add: ins_step_def del_step_def sub_step_def)

lemma backtrace_filled:
  "i \<le> length (PairAnalysis.target an) \<Longrightarrow> j \<le> length (PairAnalysis.source an) \<Longrightarrow>
   \<exists>bt. backtrace_loop an (filled an m) (int j) (int i) acc = Inr (bt @ acc) \<and> trace_ok an bt i j"
proof (induction "i + j" arbitrary: i j acc rule: less_induct)
  case less
  let ?M = "filled an m"
  let ?S = "PairAnalysis.source an" and ?T = "PairAnalysis.target an"
  have here: "?M (i, j) = Some (expected_cell an i j)"
    using less.prems by (simp add: filled_in_range)
  have via_INS: ?case
    if i: "i = Suc i'" and c: "expected_cell an i j = ins_step an (expected_cell an i' j) (?T ! i')"
    for i'
  proof -
    let ?st = "\<lparr>EditStep.source = None, target = Some (?T ! i'), cell = expected_cell an i j\<rparr>"
    have lt: "i' < length ?T" using less.prems i by simp
    have "backtrace_loop an ?M (int j) (int i) acc = backtrace_loop an ?M (int j) (int i') (?st # acc)"
      unfolding i by (rule loop_INS [OF lt]) (use here c i in simp_all)
    moreover obtain bt where "backtrace_loop an ?M (int j) (int i') (?st # acc) = Inr (bt @ ?st # acc)"
      and "trace_ok an bt i' j"
      using less.hyps [of i' j "?st # acc"] less.prems i by auto
    moreover have "trace_ok an (bt @ [?st]) (Suc i') j"
      using \<open>trace_ok an bt i' j\<close> lt c i by (intro trace_ok_snoc_INS) simp_all
    ultimately show ?thesis using i by (intro exI [of _ "bt @ [?st]"]) simp
  qed
  have via_DEL: ?case
    if j: "j = Suc j'" and c: "expected_cell an i j = del_step an (expected_cell an i j') (?S ! j')"
    for j'
  proof -
    let ?st = "\<lparr>EditStep.source = Some (?S ! j'), target = None, cell = expected_cell an i j\<rparr>"
    have lt: "j' < length ?S" using less.prems j by simp
    have "backtrace_loop an ?M (int j) (int i) acc = backtrace_loop an ?M (int j') (int i) (?st # acc)"
      unfolding j by (rule loop_DEL [OF lt]) (use here c j in simp_all)
    moreover obtain bt where "backtrace_loop an ?M (int j') (int i) (?st # acc) = Inr (bt @ ?st # acc)"
      and "trace_ok an bt i j'"
      using less.hyps [of i j' "?st # acc"] less.prems j by auto
    moreover have "trace_ok an (bt @ [?st]) i (Suc j')"
      using \<open>trace_ok an bt i j'\<close> lt c j by (intro trace_ok_snoc_DEL) simp_all
    ultimately show ?thesis using j by (intro exI [of _ "bt @ [?st]"]) simp
  qed
  have via_SUB: ?case
    if i: "i = Suc i'" and j: "j = Suc j'"
      and c: "expected_cell an i j = sub_step an (expected_cell an i' j') (?S ! j') (?T ! i')"
    for i' j'
  proof -
    let ?st = "\<lparr>EditStep.source = Some (?S ! j'), target = Some (?T ! i'),
                 cell = expected_cell an i j\<rparr>"
    have lt: "j' < length ?S" "i' < length ?T" using less.prems i j by simp_all
    have "backtrace_loop an ?M (int j) (int i) acc = backtrace_loop an ?M (int j') (int i') (?st # acc)"
      unfolding i j by (rule loop_SUB [OF lt]) (use here c i j in simp_all)
    moreover obtain bt where "backtrace_loop an ?M (int j') (int i') (?st # acc) = Inr (bt @ ?st # acc)"
      and "trace_ok an bt i' j'"
      using less.hyps [of i' j' "?st # acc"] less.prems i j by auto
    moreover have "trace_ok an (bt @ [?st]) (Suc i') (Suc j')"
      using \<open>trace_ok an bt i' j'\<close> lt c i j by (intro trace_ok_snoc_SUB) simp_all
    ultimately show ?thesis using i j by (intro exI [of _ "bt @ [?st]"]) simp
  qed
  show ?case
  proof (cases i)
    case 0
    show ?thesis
    proof (cases j)
      case 0
      with \<open>i = 0\<close> show ?thesis
        by (intro exI [of _ "[]"]) (simp add: loop_end trace_ok_Nil)
    next
      case (Suc j')
      with \<open>i = 0\<close> show ?thesis by (intro via_DEL [of j']) simp_all
    qed
  next
    case (Suc i')
    show ?thesis
    proof (cases j)
      case 0
      with Suc show ?thesis by (intro via_INS [of i']) simp_all
    next
      case (Suc j')
      let ?I = "ins_step an (expected_cell an i' (Suc j')) (?T ! i')"
      let ?U = "sub_step an (expected_cell an i' j') (?S ! j') (?T ! i')"
      let ?D = "del_step an (expected_cell an (Suc i') j') (?S ! j')"
      have c: "expected_cell an i j = choose_cell ?I ?U ?D"
        using Suc \<open>i = Suc i'\<close> by simp
      consider "expected_cell an i j = ?U" | "expected_cell an i j = ?D" | "expected_cell an i j = ?I"
        using choose_cell_cases [of ?I ?U ?D] c by auto
      then show ?thesis
      proof cases
        case 1
        then show ?thesis using Suc \<open>i = Suc i'\<close> by (intro via_SUB [of i' j']) simp_all
      next
        case 2
        then show ?thesis using Suc \<open>i = Suc i'\<close> by (intro via_DEL [of j']) simp_all
      next
        case 3
        then show ?thesis using Suc \<open>i = Suc i'\<close> by (intro via_INS [of i']) simp_all
      qed
    qed
  qed
qed

lemma get_one_backtrace_filled:
  "\<exists>bt. get_one_backtrace an (filled an m) = Inr bt \<and>
        trace_ok an bt (length (PairAnalysis.target an)) (length (PairAnalysis.source an))"
  using backtrace_filled [of "length (PairAnalysis.target an)" an "length (PairAnalysis.source an)" m "[]"]
  by (simp add: get_one_backtrace_def)

section \<open>No alignment of two prefixes is cheaper than their cell\<close>

lemma take_eq_snoc:
  assumes "take j xs = ys @ [s]" "j \<le> length xs"
  shows "j = Suc (length ys) \<and> take (length ys) xs = ys \<and> xs ! length ys = s"
proof -
  have "length (take j xs) = Suc (length ys)" using assms(1) by simp
  then have j: "j = Suc (length ys)" using assms(2) by simp
  have "take (length ys) (take j xs) = ys" using assms(1) by simp
  then have t: "take (length ys) xs = ys" using j by (simp add: min_def)
  have "take j xs ! length ys = s" using assms(1) by simp
  then have "xs ! length ys = s" using j by simp
  with j t show ?thesis by simp
qed

lemma expected_le_del:
  "cumulative_cost (expected_cell an i (Suc j))
     \<le> cumulative_cost (expected_cell an i j) + del_cost an (PairAnalysis.source an ! j)"
  by (cases i) (simp_all add: choose_cell_cumulative del_step_def)

lemma expected_le_ins:
  "cumulative_cost (expected_cell an (Suc i) j)
     \<le> cumulative_cost (expected_cell an i j) + ins_cost an (PairAnalysis.target an ! i)"
  by (cases j) (simp_all add: choose_cell_cumulative ins_step_def)

lemma expected_le_sub:
  "cumulative_cost (expected_cell an (Suc i) (Suc j))
     \<le> cumulative_cost (expected_cell an i j)
        + sub_cost an (PairAnalysis.source an ! j) (PairAnalysis.target an ! i)"
  by (simp add: choose_cell_cumulative sub_step_def)

lemma expected_cell_lower_bound:
  "is_alignment a (take j (PairAnalysis.source an)) (take i (PairAnalysis.target an)) \<Longrightarrow>
   i \<le> length (PairAnalysis.target an) \<Longrightarrow> j \<le> length (PairAnalysis.source an) \<Longrightarrow>
   cumulative_cost (expected_cell an i j)
     \<le> alignment_cost (ins_cost an) (del_cost an) (sub_cost an) a"
proof (induction a arbitrary: i j rule: rev_induct)
  case Nil
  then have "i = 0" "j = 0" by (auto simp: is_alignment_def)
  then show ?case by (simp add: alignment_cost_def)
next
  case (snoc st a)
  let ?S = "PairAnalysis.source an" and ?T = "PairAnalysis.target an"
  let ?cost = "alignment_cost (ins_cost an) (del_cost an) (sub_cost an)"
  obtain so to where st: "st = (so, to)" by (cases st)
  have nn: "(None, None) \<notin> set a" "(so, to) \<noteq> (None, None)"
    using snoc.prems(1) st by (auto simp: is_alignment_def)
  have src: "take j ?S = present (map fst a) @ present [so]"
    and tgt: "take i ?T = present (map snd a) @ present [to]"
    using snoc.prems(1) st by (auto simp: is_alignment_def present_append)
  show ?case
  proof (cases so)
    case None
    then obtain t where t: "to = Some t" using nn(2) by (cases to) auto
    from tgt t snoc.prems(2) obtain i' where i: "i = Suc i'"
      "take i' ?T = present (map snd a)" "?T ! i' = t"
      using take_eq_snoc [of i ?T "present (map snd a)" t] by auto
    have "is_alignment a (take j ?S) (take i' ?T)"
      using src None i nn by (simp add: is_alignment_def)
    then have "cumulative_cost (expected_cell an i' j) \<le> ?cost a"
      using snoc.IH [of j i'] snoc.prems i by simp
    moreover have "?cost (a @ [st]) = ?cost a + ins_cost an t"
      using st None t by (simp add: alignment_cost_def)
    ultimately show ?thesis
      using expected_le_ins [of an i' j] i by simp
  next
    case (Some s)
    from src Some snoc.prems(3) obtain j' where j: "j = Suc j'"
      "take j' ?S = present (map fst a)" "?S ! j' = s"
      using take_eq_snoc [of j ?S "present (map fst a)" s] by auto
    show ?thesis
    proof (cases to)
      case None
      have "is_alignment a (take j' ?S) (take i ?T)"
        using tgt None j nn by (simp add: is_alignment_def)
      then have "cumulative_cost (expected_cell an i j') \<le> ?cost a"
        using snoc.IH [of j' i] snoc.prems j by simp
      moreover have "?cost (a @ [st]) = ?cost a + del_cost an s"
        using st None Some by (simp add: alignment_cost_def)
      ultimately show ?thesis
        using expected_le_del [of an i j'] j by simp
    next
      case (Some t)
      from tgt Some snoc.prems(2) obtain i' where i: "i = Suc i'"
        "take i' ?T = present (map snd a)" "?T ! i' = t"
        using take_eq_snoc [of i ?T "present (map snd a)" t] by auto
      have "is_alignment a (take j' ?S) (take i' ?T)"
        using i j nn by (simp add: is_alignment_def)
      then have "cumulative_cost (expected_cell an i' j') \<le> ?cost a"
        using snoc.IH [of j' i'] snoc.prems i j by simp
      moreover have "?cost (a @ [st]) = ?cost a + sub_cost an s t"
        using st Some \<open>so = Some s\<close> by (simp add: alignment_cost_def)
      ultimately show ?thesis
        using expected_le_sub [of an i' j'] i j by simp
    qed
  qed
qed

lemma trace_ok_alignment:
  assumes "trace_ok an bt i j"
  shows "is_alignment (map (\<lambda>st. (EditStep.source st, EditStep.target st)) bt)
           (take j (PairAnalysis.source an)) (take i (PairAnalysis.target an))"
    and "alignment_cost (ins_cost an) (del_cost an) (sub_cost an)
           (map (\<lambda>st. (EditStep.source st, EditStep.target st)) bt)
         = cumulative_cost (expected_cell an i j)"
proof -
  have eq: "map (step_cost (ins_cost an) (del_cost an) (sub_cost an))
              (map (\<lambda>st. (EditStep.source st, EditStep.target st)) bt)
            = map (\<lambda>st. Cell.this_cost (cell st)) bt"
    using assms by (auto simp: trace_ok_def)
  show "is_alignment (map (\<lambda>st. (EditStep.source st, EditStep.target st)) bt)
           (take j (PairAnalysis.source an)) (take i (PairAnalysis.target an))"
    using assms by (auto simp: trace_ok_def is_alignment_def comp_def)
  show "alignment_cost (ins_cost an) (del_cost an) (sub_cost an)
           (map (\<lambda>st. (EditStep.source st, EditStep.target st)) bt)
         = cumulative_cost (expected_cell an i j)"
    unfolding alignment_cost_def eq using assms by (simp add: trace_ok_def)
qed

lemma choose_cell_operation:
  "operation (choose_cell (ins_step an a t) (sub_step an b s t) (del_step an d s')) =
     (if min (min (cumulative_cost (ins_step an a t)) (cumulative_cost (sub_step an b s t)))
             (cumulative_cost (del_step an d s')) = cumulative_cost (sub_step an b s t) then SUB
      else if min (min (cumulative_cost (ins_step an a t)) (cumulative_cost (sub_step an b s t)))
             (cumulative_cost (del_step an d s')) = cumulative_cost (del_step an d s') then DEL
      else INS)"
  by (simp add: choose_cell_def Let_def)

lemma filled_body_cell:
  assumes "i < length (PairAnalysis.target an)" "j < length (PairAnalysis.source an)"
  shows "\<exists>c up diag left.
     filled an m (Suc i, Suc j) = Some c \<and> filled an m (i, Suc j) = Some up \<and>
     filled an m (i, j) = Some diag \<and> filled an m (Suc i, j) = Some left \<and>
     cumulative_cost c =
       min (cumulative_cost up + ins_cost an (PairAnalysis.target an ! i))
           (min (cumulative_cost diag
                   + sub_cost an (PairAnalysis.source an ! j) (PairAnalysis.target an ! i))
                (cumulative_cost left + del_cost an (PairAnalysis.source an ! j))) \<and>
     operation c =
       (if cumulative_cost diag
             + sub_cost an (PairAnalysis.source an ! j) (PairAnalysis.target an ! i)
           = cumulative_cost c
        then SUB
        else if cumulative_cost left + del_cost an (PairAnalysis.source an ! j) = cumulative_cost c
        then DEL
        else INS)"
proof -
  let ?T = "PairAnalysis.target an" and ?S = "PairAnalysis.source an"
  let ?I = "ins_step an (expected_cell an i (Suc j)) (?T ! i)"
  let ?U = "sub_step an (expected_cell an i j) (?S ! j) (?T ! i)"
  let ?D = "del_step an (expected_cell an (Suc i) j) (?S ! j)"
  let ?c = "expected_cell an (Suc i) (Suc j)"
  have c: "?c = choose_cell ?I ?U ?D" by simp
  have cum: "cumulative_cost ?I = cumulative_cost (expected_cell an i (Suc j)) + ins_cost an (?T ! i)"
    "cumulative_cost ?U = cumulative_cost (expected_cell an i j) + sub_cost an (?S ! j) (?T ! i)"
    "cumulative_cost ?D = cumulative_cost (expected_cell an (Suc i) j) + del_cost an (?S ! j)"
    by (simp_all add: ins_step_def sub_step_def del_step_def)
  have cumul: "cumulative_cost ?c
      = min (min (cumulative_cost ?I) (cumulative_cost ?U)) (cumulative_cost ?D)"
    by (simp only: c choose_cell_cumulative)
  have tag: "operation ?c
      = (if cumulative_cost ?U = cumulative_cost ?c then SUB
         else if cumulative_cost ?D = cumulative_cost ?c then DEL else INS)"
    by (simp only: cumul) (simp only: c choose_cell_operation eq_commute)
  have reorder: "min (min (cumulative_cost ?I) (cumulative_cost ?U)) (cumulative_cost ?D)
      = min (cumulative_cost ?I) (min (cumulative_cost ?U) (cumulative_cost ?D))"
    by (rule min.assoc)
  have cells: "filled an m (Suc i, Suc j) = Some ?c"
    "filled an m (i, Suc j) = Some (expected_cell an i (Suc j))"
    "filled an m (i, j) = Some (expected_cell an i j)"
    "filled an m (Suc i, j) = Some (expected_cell an (Suc i) j)"
    using assms by (simp_all add: filled_in_range del: expected_cell.simps)
  show ?thesis
    apply (rule exI [of _ ?c])
    apply (rule exI [of _ "expected_cell an i (Suc j)"])
    apply (rule exI [of _ "expected_cell an i j"])
    apply (rule exI [of _ "expected_cell an (Suc i) j"])
    apply (intro conjI cells)
     apply (simp only: cumul reorder cum)
    apply (simp only: tag cum)
    done
qed

section \<open>The parses of two suffixes\<close>

lemma path_cost_simps [simp]:
  "path_cost [] = 0" "path_cost (c # rest) = cumul_cost c"
  by (simp_all add: path_cost_def)

lemma cumul_ok_sum: "cumul_ok p \<Longrightarrow> path_cost p = sum_list (map xCell.this_cost p)"
  by (induction p) auto

lemma parse_ok_Cons:
  assumes "parse_ok cf p xs ys"
    and "(xCell.source c, xCell.target c) \<noteq> (None, None)"
    and "xCell.this_cost c =
          step_cost (insert_fn cf) (delete_fn cf) (substitute_fn cf)
            (xCell.source c, xCell.target c)"
  shows "parse_ok cf (c\<lparr>cumul_cost := xCell.this_cost c + path_cost p\<rparr> # p)
           (present [xCell.source c] @ xs) (present [xCell.target c] @ ys)"
  using assms by (cases "xCell.source c"; cases "xCell.target c") (auto simp: parse_ok_def)

lemma parse_ok_single:
  assumes "(xCell.source c, xCell.target c) \<noteq> (None, None)"
    and "xCell.this_cost c =
          step_cost (insert_fn cf) (delete_fn cf) (substitute_fn cf)
            (xCell.source c, xCell.target c)"
    and "cumul_cost c = xCell.this_cost c"
  shows "parse_ok cf [c] (present [xCell.source c]) (present [xCell.target c])"
  using assms by (cases "xCell.source c"; cases "xCell.target c") (auto simp: parse_ok_def)

lemma extend_tail_nonempty: "extend_tail c tail \<noteq> []"
  by (simp add: extend_tail_def)

lemma extend_tail_props:
  assumes tail: "\<And>p. p \<in> set tail \<Longrightarrow> parse_ok cf p xs ys \<and> path_cost p = v"
    and empty: "tail = [] \<Longrightarrow> xs = [] \<and> ys = [] \<and> v = 0"
    and c: "(xCell.source c, xCell.target c) \<noteq> (None, None)"
      "xCell.this_cost c =
          step_cost (insert_fn cf) (delete_fn cf) (substitute_fn cf)
            (xCell.source c, xCell.target c)"
      "cumul_cost c = xCell.this_cost c"
    and q: "q \<in> set (extend_tail c tail)"
  shows "parse_ok cf q (present [xCell.source c] @ xs) (present [xCell.target c] @ ys)
         \<and> path_cost q = xCell.this_cost c + v"
proof (cases "tail = []")
  case True
  then have "q = [c]" using q by (simp add: extend_tail_def)
  then show ?thesis using parse_ok_single [OF c] empty [OF True] c(3) by simp
next
  case False
  then obtain p where p: "p \<in> set tail" "q = c\<lparr>cumul_cost := xCell.this_cost c + path_cost p\<rparr> # p"
    using q by (auto simp: extend_tail_def)
  then show ?thesis using parse_ok_Cons [OF _ c(1,2), of p xs ys] tail [OF p(1)] by simp
qed

lemma optimal_parses_subset:
  "set (optimal_parses one cands) \<subseteq> {p \<in> set cands. path_cost p = Min (path_cost ` set cands)}"
  by (auto simp: optimal_parses_def Let_def dest: in_set_takeD)

lemma optimal_parses_nonempty:
  assumes "cands \<noteq> []"
  shows "optimal_parses one cands \<noteq> []"
proof -
  have "Min (path_cost ` set cands) \<in> path_cost ` set cands"
    using assms by (intro Min_in) auto
  then obtain p where "p \<in> set cands" "path_cost p = Min (path_cost ` set cands)" by auto
  then have "filter (\<lambda>p. path_cost p = Min (path_cost ` set cands)) cands \<noteq> []"
    by (auto simp: filter_empty_conv)
  then show ?thesis by (simp add: optimal_parses_def Let_def)
qed

lemma optimal_parses_one:
  assumes "cands \<noteq> []"
  shows "length (optimal_parses True cands) = 1"
proof -
  have "Min (path_cost ` set cands) \<in> path_cost ` set cands"
    using assms by (intro Min_in) auto
  then obtain p where "p \<in> set cands" "path_cost p = Min (path_cost ` set cands)" by auto
  then have "filter (\<lambda>p. path_cost p = Min (path_cost ` set cands)) cands \<noteq> []"
    by (auto simp: filter_empty_conv)
  then show ?thesis
    by (cases "filter (\<lambda>p. path_cost p = Min (path_cost ` set cands)) cands")
       (simp_all add: optimal_parses_def Let_def)
qed

lemma uniform_image:
  "A \<noteq> [] \<Longrightarrow> (\<And>p. p \<in> set A \<Longrightarrow> f p = a) \<Longrightarrow> f ` set A = {a}"
  by (cases A) auto


lemma branch_props:
  assumes ih: "(\<forall>p \<in> set tail. parse_ok cf p xs ys \<and> path_cost p = suffix_cost cf xs ys)
               \<and> (tail = [] \<longrightarrow> xs = [] \<and> ys = [])"
    and c: "(xCell.source c, xCell.target c) \<noteq> (None, None)"
      "xCell.this_cost c =
          step_cost (insert_fn cf) (delete_fn cf) (substitute_fn cf)
            (xCell.source c, xCell.target c)"
      "cumul_cost c = xCell.this_cost c"
  shows "\<forall>q \<in> set (extend_tail c tail).
           parse_ok cf q (present [xCell.source c] @ xs) (present [xCell.target c] @ ys)
           \<and> path_cost q = xCell.this_cost c + suffix_cost cf xs ys"
proof
  fix q assume q: "q \<in> set (extend_tail c tail)"
  show "parse_ok cf q (present [xCell.source c] @ xs) (present [xCell.target c] @ ys)
           \<and> path_cost q = xCell.this_cost c + suffix_cost cf xs ys"
  proof (rule extend_tail_props [OF _ _ c q])
    show "parse_ok cf p xs ys \<and> path_cost p = suffix_cost cf xs ys" if "p \<in> set tail" for p
      using ih that by blast
    show "xs = [] \<and> ys = [] \<and> suffix_cost cf xs ys = 0" if "tail = []"
      using ih that by simp
  qed
qed

lemma sub_branch:
  assumes "(\<forall>p \<in> set tail. parse_ok cf p xs ys \<and> path_cost p = suffix_cost cf xs ys)
               \<and> (tail = [] \<longrightarrow> xs = [] \<and> ys = [])"
  shows "\<forall>q \<in> set (extend_tail (sub_cell cf x y) tail).
           parse_ok cf q (x # xs) (y # ys)
           \<and> path_cost q = substitute_fn cf x y + suffix_cost cf xs ys"
  using branch_props [OF assms, of "sub_cell cf x y"] by (simp add: sub_cell_def)

lemma del_branch:
  assumes "(\<forall>p \<in> set tail. parse_ok cf p xs ys \<and> path_cost p = suffix_cost cf xs ys)
               \<and> (tail = [] \<longrightarrow> xs = [] \<and> ys = [])"
  shows "\<forall>q \<in> set (extend_tail (del_cell cf x) tail).
           parse_ok cf q (x # xs) ys
           \<and> path_cost q = delete_fn cf x + suffix_cost cf xs ys"
  using branch_props [OF assms, of "del_cell cf x"] by (simp add: del_cell_def)

lemma ins_branch:
  assumes "(\<forall>p \<in> set tail. parse_ok cf p xs ys \<and> path_cost p = suffix_cost cf xs ys)
               \<and> (tail = [] \<longrightarrow> xs = [] \<and> ys = [])"
  shows "\<forall>q \<in> set (extend_tail (ins_cell cf y) tail).
           parse_ok cf q xs (y # ys)
           \<and> path_cost q = insert_fn cf y + suffix_cost cf xs ys"
  using branch_props [OF assms, of "ins_cell cf y"] by (simp add: ins_cell_def)

lemma optimal_uniform:
  assumes "cands \<noteq> []" and "\<forall>q \<in> set cands. P q"
    and "Min (path_cost ` set cands) = v"
  shows "(\<forall>p \<in> set (optimal_parses one cands). P p \<and> path_cost p = v)
         \<and> optimal_parses one cands \<noteq> []"
  using assms optimal_parses_subset [of one cands] optimal_parses_nonempty [of cands one]
  by auto

lemma suffix_parses_props:
  "(\<forall>p \<in> set (suffix_parses cf one xs ys).
      parse_ok cf p xs ys \<and> path_cost p = suffix_cost cf xs ys)
   \<and> (suffix_parses cf one xs ys = [] \<longrightarrow> xs = [] \<and> ys = [])"
proof (induction cf one xs ys rule: suffix_parses.induct)
  case (1 cf one)
  show ?case by simp
next
  case (2 cf one x xs)
  let ?B = "extend_tail (del_cell cf x) (suffix_parses cf one xs [])"
  have b: "\<forall>q \<in> set ?B. parse_ok cf q (x # xs) [] \<and> path_cost q = delete_fn cf x + suffix_cost cf xs []"
    by (rule del_branch [OF 2])
  have "path_cost ` set ?B = {delete_fn cf x + suffix_cost cf xs []}"
    using b by (intro uniform_image extend_tail_nonempty) blast
  then have "Min (path_cost ` set ?B) = suffix_cost cf (x # xs) []" by simp
  from optimal_uniform [OF extend_tail_nonempty _ this, of "\<lambda>q. parse_ok cf q (x # xs) []" one] b
  show ?case by simp
next
  case (3 cf one y ys)
  let ?C = "extend_tail (ins_cell cf y) (suffix_parses cf one [] ys)"
  have c: "\<forall>q \<in> set ?C. parse_ok cf q [] (y # ys) \<and> path_cost q = insert_fn cf y + suffix_cost cf [] ys"
    by (rule ins_branch [OF 3])
  have "path_cost ` set ?C = {insert_fn cf y + suffix_cost cf [] ys}"
    using c by (intro uniform_image extend_tail_nonempty) blast
  then have "Min (path_cost ` set ?C) = suffix_cost cf [] (y # ys)" by simp
  from optimal_uniform [OF extend_tail_nonempty _ this, of "\<lambda>q. parse_ok cf q [] (y # ys)" one] c
  show ?case by simp
next
  case (4 cf one x xs y ys)
  let ?A = "extend_tail (sub_cell cf x y) (suffix_parses cf one xs ys)"
  let ?B = "extend_tail (del_cell cf x) (suffix_parses cf one xs (y # ys))"
  let ?C = "extend_tail (ins_cell cf y) (suffix_parses cf one (x # xs) ys)"
  have a: "\<forall>q \<in> set ?A. parse_ok cf q (x # xs) (y # ys)
             \<and> path_cost q = substitute_fn cf x y + suffix_cost cf xs ys"
    by (rule sub_branch [OF 4(1)])
  have b: "\<forall>q \<in> set ?B. parse_ok cf q (x # xs) (y # ys)
             \<and> path_cost q = delete_fn cf x + suffix_cost cf xs (y # ys)"
    by (rule del_branch [OF 4(2)])
  have c: "\<forall>q \<in> set ?C. parse_ok cf q (x # xs) (y # ys)
             \<and> path_cost q = insert_fn cf y + suffix_cost cf (x # xs) ys"
    by (rule ins_branch [OF 4(3)])
  have ia: "path_cost ` set ?A = {substitute_fn cf x y + suffix_cost cf xs ys}"
    using a by (intro uniform_image extend_tail_nonempty) blast
  have ib: "path_cost ` set ?B = {delete_fn cf x + suffix_cost cf xs (y # ys)}"
    using b by (intro uniform_image extend_tail_nonempty) blast
  have ic: "path_cost ` set ?C = {insert_fn cf y + suffix_cost cf (x # xs) ys}"
    using c by (intro uniform_image extend_tail_nonempty) blast
  have mn: "Min (path_cost ` set (?A @ ?B @ ?C)) = suffix_cost cf (x # xs) (y # ys)"
    by (simp add: image_Un ia ib ic)
  have ne: "?A @ ?B @ ?C \<noteq> []" by (simp add: extend_tail_nonempty)
  have all: "\<forall>q \<in> set (?A @ ?B @ ?C). parse_ok cf q (x # xs) (y # ys)"
    using a b c by auto
  from optimal_uniform [OF ne all mn, of one]
  show ?case by simp
qed

lemma suffix_cost_le_del:
  "suffix_cost cf (x # xs) ys \<le> delete_fn cf x + suffix_cost cf xs ys"
  by (cases ys) simp_all

lemma suffix_cost_le_ins:
  "suffix_cost cf xs (y # ys) \<le> insert_fn cf y + suffix_cost cf xs ys"
  by (cases xs) simp_all

lemma suffix_cost_le_sub:
  "suffix_cost cf (x # xs) (y # ys) \<le> substitute_fn cf x y + suffix_cost cf xs ys"
  by simp

lemma suffix_cost_lower_bound:
  "is_alignment a xs ys \<Longrightarrow>
   suffix_cost cf xs ys \<le> alignment_cost (insert_fn cf) (delete_fn cf) (substitute_fn cf) a"
proof (induction a arbitrary: xs ys)
  case Nil
  then show ?case by (simp add: is_alignment_def alignment_cost_def)
next
  case (Cons st a)
  let ?cost = "alignment_cost (insert_fn cf) (delete_fn cf) (substitute_fn cf)"
  obtain so to where st: "st = (so, to)" by (cases st)
  have nn: "(None, None) \<notin> set a" "(so, to) \<noteq> (None, None)"
    using Cons.prems st by (auto simp: is_alignment_def)
  have src: "xs = present [so] @ present (map fst a)"
    and tgt: "ys = present [to] @ present (map snd a)"
    using Cons.prems st by (cases so; cases to; auto simp: is_alignment_def)+
  have rest: "is_alignment a (present (map fst a)) (present (map snd a))"
    using nn by (simp add: is_alignment_def)
  note ih = Cons.IH [OF rest]
  show ?case
  proof (cases so)
    case None
    then obtain t where t: "to = Some t" using nn(2) by (cases to) auto
    have "?cost (st # a) = insert_fn cf t + ?cost a"
      using st None t by (simp add: alignment_cost_def)
    then show ?thesis
      using ih suffix_cost_le_ins [of cf "present (map fst a)" t "present (map snd a)"]
        src tgt None t by simp
  next
    case (Some s)
    show ?thesis
    proof (cases to)
      case None
      have "?cost (st # a) = delete_fn cf s + ?cost a"
        using st None Some by (simp add: alignment_cost_def)
      then show ?thesis
        using ih suffix_cost_le_del [of cf s "present (map fst a)" "present (map snd a)"]
          src tgt None Some by simp
    next
      case (Some t)
      have "?cost (st # a) = substitute_fn cf s t + ?cost a"
        using st Some \<open>so = Some s\<close> by (simp add: alignment_cost_def)
      then show ?thesis
        using ih suffix_cost_le_sub [of cf s "present (map fst a)" t "present (map snd a)"]
          src tgt Some \<open>so = Some s\<close> by simp
    qed
  qed
qed

lemma parse_ok_alignment:
  assumes "parse_ok cf p xs ys"
  shows "is_alignment (map (\<lambda>c. (xCell.source c, xCell.target c)) p) xs ys"
    and "alignment_cost (insert_fn cf) (delete_fn cf) (substitute_fn cf)
           (map (\<lambda>c. (xCell.source c, xCell.target c)) p) = path_cost p"
proof -
  have eq: "map (step_cost (insert_fn cf) (delete_fn cf) (substitute_fn cf))
              (map (\<lambda>c. (xCell.source c, xCell.target c)) p)
            = map xCell.this_cost p"
    using assms by (auto simp: parse_ok_def)
  show "is_alignment (map (\<lambda>c. (xCell.source c, xCell.target c)) p) xs ys"
    using assms by (auto simp: parse_ok_def is_alignment_def comp_def)
  show "alignment_cost (insert_fn cf) (delete_fn cf) (substitute_fn cf)
           (map (\<lambda>c. (xCell.source c, xCell.target c)) p) = path_cost p"
    unfolding alignment_cost_def eq using assms by (simp add: parse_ok_def cumul_ok_sum)
qed

section \<open>The enumerator returns the parses of the suffixes\<close>

lemma parse_cost_path_cost: "p \<noteq> [] \<Longrightarrow> parse_cost p = Inr (path_cost p)"
  by (cases p) simp_all

lemma collect_total:
  "(\<And>x. x \<in> set xs \<Longrightarrow> f x = Inr (g x)) \<Longrightarrow> collect f xs = Inr (map g xs)"
  by (induction xs) simp_all

lemma remove_suboptimal_parses_eq:
  assumes "parses \<noteq> []" "[] \<notin> set parses"
  shows "remove_suboptimal_parses parses one = Inr (optimal_parses one parses)"
proof -
  obtain p ps where parses: "parses = p # ps" using assms(1) by (cases parses) auto
  have costs: "collect parse_cost parses = Inr (map path_cost parses)"
    using assms(2) by (intro collect_total parse_cost_path_cost) auto
  have mn: "fold min (map path_cost ps) (path_cost p) = Min (path_cost ` set parses)"
    by (simp add: parses Min.set_eq_fold [symmetric])
  have flt: "filter (\<lambda>q. parse_cost q = Inr v) parses = filter (\<lambda>q. path_cost q = v) parses" for v
  proof (intro filter_cong refl)
    fix q assume "q \<in> set parses"
    then have "q \<noteq> []" using assms(2) by auto
    then show "(parse_cost q = Inr v) = (path_cost q = v)"
      by (simp add: parse_cost_path_cost)
  qed
  have "Min (path_cost ` set parses) \<in> path_cost ` set parses"
    using assms(1) by (intro Min_in) auto
  then have ne: "filter (\<lambda>q. path_cost q = Min (path_cost ` set parses)) parses \<noteq> []"
    by (auto simp: filter_empty_conv)
  show ?thesis
    unfolding remove_suboptimal_parses_def costs
    apply (simp only: sum.case parses list.map list.case Let_def mn [unfolded parses] flt)
    apply (fold parses)
    using ne
    apply (cases "filter (\<lambda>q. path_cost q = Min (path_cost ` set parses)) parses")
     apply (simp_all add: optimal_parses_def Let_def flt)
    done
qed


lemma expected_parses_no_empty: "[] \<notin> set (expected_parses args pos)"
proof
  assume "[] \<in> set (expected_parses args pos)"
  then have "parse_ok (cost_functions args) []
               (drop (fst pos) (Arguments.source args)) (drop (snd pos) (Arguments.target args))"
    unfolding expected_parses_def
    using suffix_parses_props [of "cost_functions args" "just_one args"
      "drop (fst pos) (Arguments.source args)" "drop (snd pos) (Arguments.target args)"]
    by blast
  then show False by (simp add: parse_ok_def)
qed

lemma expected_parses_end:
  "expected_parses args (length (Arguments.source args), length (Arguments.target args)) = []"
  by (simp add: expected_parses_def)

lemma expected_parses_del:
  assumes "s < length (Arguments.source args)"
  shows "expected_parses args (s, length (Arguments.target args)) =
     optimal_parses (just_one args)
       (extend_tail (del_cell (cost_functions args) (Arguments.source args ! s))
          (expected_parses args (Suc s, length (Arguments.target args))))"
proof -
  have S: "drop s (Arguments.source args)
           = Arguments.source args ! s # drop (Suc s) (Arguments.source args)"
    using assms by (simp add: Cons_nth_drop_Suc)
  have T: "drop (length (Arguments.target args)) (Arguments.target args) = []" by simp
  show ?thesis
    unfolding expected_parses_def fst_conv snd_conv S T
    by (simp only: suffix_parses.simps)
qed

lemma expected_parses_ins:
  assumes "t < length (Arguments.target args)"
  shows "expected_parses args (length (Arguments.source args), t) =
     optimal_parses (just_one args)
       (extend_tail (ins_cell (cost_functions args) (Arguments.target args ! t))
          (expected_parses args (length (Arguments.source args), Suc t)))"
proof -
  have T: "drop t (Arguments.target args)
           = Arguments.target args ! t # drop (Suc t) (Arguments.target args)"
    using assms by (simp add: Cons_nth_drop_Suc)
  have S: "drop (length (Arguments.source args)) (Arguments.source args) = []" by simp
  show ?thesis
    unfolding expected_parses_def fst_conv snd_conv S T
    by (simp only: suffix_parses.simps)
qed

lemma expected_parses_both:
  assumes "s < length (Arguments.source args)" "t < length (Arguments.target args)"
  shows "expected_parses args (s, t) =
     optimal_parses (just_one args)
       (extend_tail (sub_cell (cost_functions args) (Arguments.source args ! s)
                       (Arguments.target args ! t))
          (expected_parses args (Suc s, Suc t))
        @ extend_tail (del_cell (cost_functions args) (Arguments.source args ! s))
            (expected_parses args (Suc s, t))
        @ extend_tail (ins_cell (cost_functions args) (Arguments.target args ! t))
            (expected_parses args (s, Suc t)))"
proof -
  have S: "drop s (Arguments.source args)
           = Arguments.source args ! s # drop (Suc s) (Arguments.source args)"
    using assms by (simp add: Cons_nth_drop_Suc)
  have T: "drop t (Arguments.target args)
           = Arguments.target args ! t # drop (Suc t) (Arguments.target args)"
    using assms by (simp add: Cons_nth_drop_Suc)
  show ?thesis
    unfolding expected_parses_def fst_conv snd_conv S T
    by (simp only: suffix_parses.simps)
qed

lemma try_op_unfold:
  assumes "s + (if opus \<in> {xDEL, xSUB} then 1 else 0) \<le> length (Arguments.source args)"
    and "t + (if opus \<in> {xINS, xSUB} then 1 else 0) \<le> length (Arguments.target args)"
    and "relate args (Some (s + (if opus \<in> {xDEL, xSUB} then 1 else 0),
                            t + (if opus \<in> {xINS, xSUB} then 1 else 0))) mem = Inr (tail, mem')"
    and "[] \<notin> set tail"
    and "op_cost args (s, t) opus = Inr cost"
    and "element_if (opus \<in> {xDEL, xSUB}) (Arguments.source args) s = Inr so"
    and "element_if (opus \<in> {xINS, xSUB}) (Arguments.target args) t = Inr to"
  shows "try_op args (s, t) opus mem =
         Inr (extend_tail \<lparr>xCell.source = so, target = to, this_cost = cost, cumul_cost = cost\<rparr>
                tail, mem')"
proof -
  let ?c = "\<lparr>xCell.source = so, target = to, this_cost = cost, cumul_cost = cost\<rparr>"
  have col: "collect (\<lambda>p. case parse_cost p of Inl e \<Rightarrow> Inl e
                          | Inr tail_cost \<Rightarrow>
                              Inr (?c\<lparr>cumul_cost := xCell.this_cost ?c + tail_cost\<rparr> # p)) tail
             = Inr (map (\<lambda>p. ?c\<lparr>cumul_cost := xCell.this_cost ?c + path_cost p\<rparr> # p) tail)"
  proof (rule collect_total)
    fix p assume "p \<in> set tail"
    then have "p \<noteq> []" using assms(4) by auto
    then show "(case parse_cost p of Inl e \<Rightarrow> Inl e
                | Inr tail_cost \<Rightarrow> Inr (?c\<lparr>cumul_cost := xCell.this_cost ?c + tail_cost\<rparr> # p))
               = Inr (?c\<lparr>cumul_cost := xCell.this_cost ?c + path_cost p\<rparr> # p)"
      by (simp add: parse_cost_path_cost)
  qed
  have flags: "((if opus \<in> {xDEL, xSUB} then 1 else 0 :: nat) \<noteq> 0) = (opus \<in> {xDEL, xSUB})"
    "((if opus \<in> {xINS, xSUB} then 1 else 0 :: nat) \<noteq> 0) = (opus \<in> {xINS, xSUB})"
    by simp_all
  show ?thesis
    apply (subst try_op.simps)
    apply (simp only: Let_def fst_conv snd_conv flags assms(3,5,6,7) sum.case prod.case col)
    using assms(1,2) apply (simp add: extend_tail_def not_less)
    done
qed

lemma relate_okD:
  "relate_ok args pos \<Longrightarrow> memory_ok args mem \<Longrightarrow>
   \<exists>mem'. relate args (Some pos) mem = Inr (expected_parses args pos, mem') \<and> memory_ok args mem'"
  by (simp add: relate_ok_def)

lemma try_op_SUB:
  assumes "s < length (Arguments.source args)" "t < length (Arguments.target args)"
    and "relate_ok args (Suc s, Suc t)" "memory_ok args mem"
  shows "\<exists>mem'. try_op args (s, t) xSUB mem =
           Inr (extend_tail (sub_cell (cost_functions args) (Arguments.source args ! s)
                               (Arguments.target args ! t))
                  (expected_parses args (Suc s, Suc t)), mem')
         \<and> memory_ok args mem'"
proof -
  obtain mem' where r: "relate args (Some (Suc s, Suc t)) mem
      = Inr (expected_parses args (Suc s, Suc t), mem')" and ok: "memory_ok args mem'"
    using relate_okD [OF assms(3,4)] by blast
  have "try_op args (s, t) xSUB mem =
         Inr (extend_tail \<lparr>xCell.source = Some (Arguments.source args ! s),
                target = Some (Arguments.target args ! t),
                this_cost = substitute_fn (cost_functions args) (Arguments.source args ! s)
                               (Arguments.target args ! t),
                cumul_cost = substitute_fn (cost_functions args) (Arguments.source args ! s)
                               (Arguments.target args ! t)\<rparr>
                (expected_parses args (Suc s, Suc t)), mem')"
    using assms(1,2) r
    by (intro try_op_unfold expected_parses_no_empty)
       (simp_all add: op_cost_def element_if_def py_index_nat)
  then show ?thesis using ok by (auto simp: sub_cell_def)
qed

lemma try_op_DEL:
  assumes "s < length (Arguments.source args)" "t \<le> length (Arguments.target args)"
    and "relate_ok args (Suc s, t)" "memory_ok args mem"
  shows "\<exists>mem'. try_op args (s, t) xDEL mem =
           Inr (extend_tail (del_cell (cost_functions args) (Arguments.source args ! s))
                  (expected_parses args (Suc s, t)), mem')
         \<and> memory_ok args mem'"
proof -
  obtain mem' where r: "relate args (Some (Suc s, t)) mem
      = Inr (expected_parses args (Suc s, t), mem')" and ok: "memory_ok args mem'"
    using relate_okD [OF assms(3,4)] by blast
  have "try_op args (s, t) xDEL mem =
         Inr (extend_tail \<lparr>xCell.source = Some (Arguments.source args ! s),
                target = None,
                this_cost = delete_fn (cost_functions args) (Arguments.source args ! s),
                cumul_cost = delete_fn (cost_functions args) (Arguments.source args ! s)\<rparr>
                (expected_parses args (Suc s, t)), mem')"
    using assms(1,2) r
    by (intro try_op_unfold expected_parses_no_empty)
       (simp_all add: op_cost_def element_if_def py_index_nat)
  then show ?thesis using ok by (auto simp: del_cell_def)
qed

lemma try_op_INS:
  assumes "s \<le> length (Arguments.source args)" "t < length (Arguments.target args)"
    and "relate_ok args (s, Suc t)" "memory_ok args mem"
  shows "\<exists>mem'. try_op args (s, t) xINS mem =
           Inr (extend_tail (ins_cell (cost_functions args) (Arguments.target args ! t))
                  (expected_parses args (s, Suc t)), mem')
         \<and> memory_ok args mem'"
proof -
  obtain mem' where r: "relate args (Some (s, Suc t)) mem
      = Inr (expected_parses args (s, Suc t), mem')" and ok: "memory_ok args mem'"
    using relate_okD [OF assms(3,4)] by blast
  have "try_op args (s, t) xINS mem =
         Inr (extend_tail \<lparr>xCell.source = None,
                target = Some (Arguments.target args ! t),
                this_cost = insert_fn (cost_functions args) (Arguments.target args ! t),
                cumul_cost = insert_fn (cost_functions args) (Arguments.target args ! t)\<rparr>
                (expected_parses args (s, Suc t)), mem')"
    using assms(1,2) r
    by (intro try_op_unfold expected_parses_no_empty)
       (simp_all add: op_cost_def element_if_def py_index_nat)
  then show ?thesis using ok by (auto simp: ins_cell_def)
qed

lemma extend_tail_no_empty: "[] \<notin> set (extend_tail c tail)"
  by (auto simp: extend_tail_def)


lemma parse_step:
  assumes s: "s \<le> length (Arguments.source args)" and t: "t \<le> length (Arguments.target args)"
    and ok: "memory_ok args mem"
    and sub: "s < length (Arguments.source args) \<Longrightarrow> t < length (Arguments.target args) \<Longrightarrow>
              relate_ok args (Suc s, Suc t)"
    and del: "s < length (Arguments.source args) \<Longrightarrow> relate_ok args (Suc s, t)"
    and ins: "t < length (Arguments.target args) \<Longrightarrow> relate_ok args (s, Suc t)"
  shows "\<exists>mem'. parse args (s, t) mem = Inr (expected_parses args (s, t), mem')
               \<and> memory_ok args mem'"
proof -
  let ?S = "Arguments.source args" and ?T = "Arguments.target args"
  let ?cf = "cost_functions args"
  let ?rs = "int (length ?S) - int s" and ?rt = "int (length ?T) - int t"
  consider (both) "s < length ?S" "t < length ?T"
    | (src) "s < length ?S" "t = length ?T"
    | (tgt) "s = length ?S" "t < length ?T"
    | (none) "s = length ?S" "t = length ?T"
    using s t by linarith
  then show ?thesis
  proof cases
    case both
    let ?A = "extend_tail (sub_cell ?cf (?S ! s) (?T ! t)) (expected_parses args (Suc s, Suc t))"
    let ?B = "extend_tail (del_cell ?cf (?S ! s)) (expected_parses args (Suc s, t))"
    let ?C = "extend_tail (ins_cell ?cf (?T ! t)) (expected_parses args (s, Suc t))"
    have r: "?rs \<noteq> 0" "?rt \<noteq> 0" using both by simp_all
    obtain mem1 where 1: "try_op args (s, t) xSUB mem = Inr (?A, mem1)" "memory_ok args mem1"
      using try_op_SUB [OF both sub [OF both] ok] by blast
    obtain mem2 where 2: "try_op args (s, t) xDEL mem1 = Inr (?B, mem2)" "memory_ok args mem2"
      using try_op_DEL [OF both(1) t del [OF both(1)] 1(2)] by blast
    obtain mem3 where 3: "try_op args (s, t) xINS mem2 = Inr (?C, mem3)" "memory_ok args mem3"
      using try_op_INS [OF s both(2) ins [OF both(2)] 2(2)] by blast
    have ne: "?A @ ?B @ ?C \<noteq> []" by (simp add: extend_tail_nonempty)
    have "[] \<notin> set (?A @ ?B @ ?C)" by (simp add: extend_tail_no_empty)
    then have opt: "remove_suboptimal_parses (?A @ ?B @ ?C) (just_one args)
                    = Inr (optimal_parses (just_one args) (?A @ ?B @ ?C))"
      by (rule remove_suboptimal_parses_eq [OF ne])
    have "parse args (s, t) mem = Inr (optimal_parses (just_one args) (?A @ ?B @ ?C), mem3)"
      apply (subst parse.simps)
      apply (simp only: Let_def fst_conv snd_conv r simp_thms if_True if_False 1 2 3
          sum.case prod.case ne opt)
      done
    then show ?thesis using 3(2) expected_parses_both [OF both] by simp
  next
    case src
    let ?B = "extend_tail (del_cell ?cf (?S ! s)) (expected_parses args (Suc s, t))"
    have r: "?rs \<noteq> 0" "?rt = 0" using src by simp_all
    obtain mem2 where 2: "try_op args (s, t) xDEL mem = Inr (?B, mem2)" "memory_ok args mem2"
      using try_op_DEL [OF src(1) t del [OF src(1)] ok] by blast
    have ne: "[] @ ?B @ [] \<noteq> []" by (simp add: extend_tail_nonempty)
    have "[] \<notin> set ([] @ ?B @ [])" by (simp add: extend_tail_no_empty)
    then have opt: "remove_suboptimal_parses ([] @ ?B @ []) (just_one args)
                    = Inr (optimal_parses (just_one args) ([] @ ?B @ []))"
      by (rule remove_suboptimal_parses_eq [OF ne])
    have "parse args (s, t) mem = Inr (optimal_parses (just_one args) ([] @ ?B @ []), mem2)"
      apply (subst parse.simps)
      apply (simp only: Let_def fst_conv snd_conv r simp_thms if_True if_False 2
          sum.case prod.case ne opt)
      done
    then show ?thesis using 2(2) expected_parses_del [OF src(1)] src(2) by simp
  next
    case tgt
    let ?C = "extend_tail (ins_cell ?cf (?T ! t)) (expected_parses args (s, Suc t))"
    have r: "?rs = 0" "?rt \<noteq> 0" using tgt by simp_all
    obtain mem3 where 3: "try_op args (s, t) xINS mem = Inr (?C, mem3)" "memory_ok args mem3"
      using try_op_INS [OF s tgt(2) ins [OF tgt(2)] ok] by blast
    have ne: "[] @ [] @ ?C \<noteq> []" by (simp add: extend_tail_nonempty)
    have "[] \<notin> set ([] @ [] @ ?C)" by (simp add: extend_tail_no_empty)
    then have opt: "remove_suboptimal_parses ([] @ [] @ ?C) (just_one args)
                    = Inr (optimal_parses (just_one args) ([] @ [] @ ?C))"
      by (rule remove_suboptimal_parses_eq [OF ne])
    have "parse args (s, t) mem = Inr (optimal_parses (just_one args) ([] @ [] @ ?C), mem3)"
      apply (subst parse.simps)
      apply (simp only: Let_def fst_conv snd_conv r simp_thms if_True if_False 3
          sum.case prod.case ne opt)
      done
    then show ?thesis using 3(2) expected_parses_ins [OF tgt(2)] tgt(1) by simp
  next
    case none
    have r: "?rs = 0" "?rt = 0" using none by simp_all
    have "parse args (s, t) mem = Inr ([], mem)"
      apply (subst parse.simps)
      apply (simp only: Let_def fst_conv snd_conv r simp_thms if_True if_False)
      done
    then show ?thesis using ok expected_parses_end [of args] none by simp
  qed
qed

lemma relate_step:
  assumes s: "s \<le> length (Arguments.source args)" and t: "t \<le> length (Arguments.target args)"
    and p: "\<And>mem. memory_ok args mem \<Longrightarrow>
              \<exists>mem'. parse args (s, t) mem = Inr (expected_parses args (s, t), mem')
                     \<and> memory_ok args mem'"
  shows "relate_ok args (s, t)"
  unfolding relate_ok_def
proof (intro allI impI)
  fix mem assume ok: "memory_ok args mem"
  show "\<exists>mem'. relate args (Some (s, t)) mem = Inr (expected_parses args (s, t), mem')
              \<and> memory_ok args mem'"
  proof (cases "mem (s, t)")
    case (Some parses)
    then have "parses = expected_parses args (s, t)" using ok by (simp add: memory_ok_def)
    then have "relate args (Some (s, t)) mem = Inr (expected_parses args (s, t), mem)"
      using Some by (simp add: relate.simps Let_def)
    then show ?thesis using ok by blast
  next
    case None
    obtain mem' where m: "parse args (s, t) mem = Inr (expected_parses args (s, t), mem')"
      "memory_ok args mem'"
      using p [OF ok] by blast
    have "relate args (Some (s, t)) mem
          = Inr (expected_parses args (s, t), mem'((s, t) \<mapsto> expected_parses args (s, t)))"
      using None m(1) by (simp add: relate.simps Let_def)
    moreover have "memory_ok args (mem'((s, t) \<mapsto> expected_parses args (s, t)))"
      using m(2) s t by (auto simp: memory_ok_def)
    ultimately show ?thesis by blast
  qed
qed

lemma relate_ok_all:
  "s \<le> length (Arguments.source args) \<Longrightarrow> t \<le> length (Arguments.target args) \<Longrightarrow>
   relate_ok args (s, t)"
proof (induction "(length (Arguments.source args) - s) + (length (Arguments.target args) - t)"
    arbitrary: s t rule: less_induct)
  case less
  show ?case
  proof (rule relate_step [OF less.prems])
    fix mem assume ok: "memory_ok args mem"
    show "\<exists>mem'. parse args (s, t) mem = Inr (expected_parses args (s, t), mem')
                \<and> memory_ok args mem'"
    proof (rule parse_step [OF less.prems ok])
      show "relate_ok args (Suc s, Suc t)"
        if "s < length (Arguments.source args)" "t < length (Arguments.target args)"
        using that by (intro less.hyps) simp_all
      show "relate_ok args (Suc s, t)" if "s < length (Arguments.source args)"
        using that less.prems by (intro less.hyps) simp_all
      show "relate_ok args (s, Suc t)" if "t < length (Arguments.target args)"
        using that less.prems by (intro less.hyps) simp_all
    qed
  qed
qed

lemma memory_ok_empty: "memory_ok args Map.empty"
  by (simp add: memory_ok_def)

lemma relate_origin:
  "\<exists>mem'. relate args None Map.empty =
            Inr (suffix_parses (cost_functions args) (just_one args)
                   (Arguments.source args) (Arguments.target args), mem')
          \<and> memory_ok args mem'"
proof -
  have "relate args None Map.empty = relate args (Some (0, 0)) Map.empty"
    by (simp add: relate.simps Let_def)
  then show ?thesis
    using relate_okD [OF relate_ok_all memory_ok_empty, of 0 args 0]
    by (simp add: expected_parses_def)
qed

section \<open>The two engines compute the same cost\<close>

lemma relate_arguments_eq:
  "relate_arguments src targ cf one = Inr (suffix_parses cf one src targ)"
proof -
  let ?args = "\<lparr>Arguments.source = src, target = targ, cost_functions = cf, just_one = one\<rparr>"
  obtain mem' where "relate ?args None Map.empty =
            Inr (suffix_parses (cost_functions ?args) (just_one ?args)
                   (Arguments.source ?args) (Arguments.target ?args), mem')"
    using relate_origin [of ?args] by blast
  then show ?thesis by (simp add: relate_arguments_def arguments_def)
qed

lemma engines_agree:
  assumes "ins_cost an = insert_fn cf" "del_cost an = delete_fn cf"
    "sub_cost an = substitute_fn cf"
  shows "cumulative_cost (expected_cell an (length (PairAnalysis.target an))
                                         (length (PairAnalysis.source an)))
         = suffix_cost cf (PairAnalysis.source an) (PairAnalysis.target an)"
proof (rule antisym)
  let ?S = "PairAnalysis.source an" and ?T = "PairAnalysis.target an"
  let ?d = "cumulative_cost (expected_cell an (length ?T) (length ?S))"
  show "?d \<le> suffix_cost cf ?S ?T"
  proof (cases "?S = [] \<and> ?T = []")
    case True
    then show ?thesis by simp
  next
    case False
    then have "suffix_parses cf False ?S ?T \<noteq> []"
      using suffix_parses_props [of cf False ?S ?T] by blast
    then obtain p where p: "p \<in> set (suffix_parses cf False ?S ?T)"
      by (cases "suffix_parses cf False ?S ?T") auto
    then have ok: "parse_ok cf p ?S ?T" and c: "path_cost p = suffix_cost cf ?S ?T"
      using suffix_parses_props [of cf False ?S ?T] by blast+
    let ?a = "map (\<lambda>c. (xCell.source c, xCell.target c)) p"
    have "is_alignment ?a (take (length ?S) ?S) (take (length ?T) ?T)"
      using parse_ok_alignment(1) [OF ok] by simp
    then have "?d \<le> alignment_cost (ins_cost an) (del_cost an) (sub_cost an) ?a"
      by (intro expected_cell_lower_bound) simp_all
    then show ?thesis
      using parse_ok_alignment(2) [OF ok] c by (simp add: assms)
  qed
  show "suffix_cost cf ?S ?T \<le> ?d"
  proof -
    obtain bt where bt: "trace_ok an bt (length ?T) (length ?S)"
      using get_one_backtrace_filled [of an Map.empty] by blast
    let ?a = "map (\<lambda>st. (EditStep.source st, EditStep.target st)) bt"
    have "is_alignment ?a ?S ?T"
      using trace_ok_alignment(1) [OF bt] by simp
    then have "suffix_cost cf ?S ?T
        \<le> alignment_cost (insert_fn cf) (delete_fn cf) (substitute_fn cf) ?a"
      by (rule suffix_cost_lower_bound)
    then show ?thesis
      using trace_ok_alignment(2) [OF bt] by (simp add: assms)
  qed
qed

lemma levenshtein_nonempty:
  assumes "origin_ok m" "src \<noteq> []" "targ \<noteq> []"
  shows "\<exists>an. levenshtein is_mark str_s str_t src targ ins_costs del_costs sub_costs m
               = Inr (an, filled an m)
             \<and> PairAnalysis.source an = src \<and> PairAnalysis.target an = targ
             \<and> ins_cost an = ins_costs \<and> del_cost an = del_costs \<and> sub_cost an = sub_costs
             \<and> source_widest an = Max (print_len is_mark str_s ` set src)
             \<and> target_widest an = Max (print_len is_mark str_t ` set targ)"
  using assms(2,3) by (simp add: levenshtein_result [OF assms(1)] Let_def)

section \<open>Evaluation on given sequences\<close>

text \<open>The equations that \<open>simp\<close> needs to run the two engines on concrete input.\<close>

lemmas xducer_eval = relate_arguments_def arguments_def relate.simps parse.simps try_op.simps
  op_cost_def py_index_def element_if_def remove_suboptimal_parses_def default_costs_def
  lev_ins_function_def lev_del_function_def lev_sub_function_def Let_def

lemmas chart_eval = levenshtein_def greatest_width_def print_len_def compute_min_edit_distance_def
  enumerate1_def make_edited_cell.simps matrix_item_def initial_matrix_def
  lev_ins_function_def lev_del_function_def lev_sub_function_def Let_def min_edit_distance_def

lemmas backtrace_eval = get_one_backtrace_def backtrace_loop.simps py_index_def

section \<open>Parses when one sequence is empty, and the first optimal parse\<close>

lemma optimal_parses_single: "optimal_parses one [q] = [q]"
  by (simp add: optimal_parses_def Let_def)

lemma suffix_parses_inserts:
  "ys \<noteq> [] \<Longrightarrow>
   \<exists>p. suffix_parses cf one [] ys = [p] \<and>
       map xCell.source p = replicate (length ys) None \<and>
       map xCell.target p = map Some ys \<and>
       map xCell.this_cost p = map (insert_fn cf) ys"
proof (induction ys)
  case Nil
  then show ?case by simp
next
  case (Cons y ys)
  show ?case
  proof (cases "ys = []")
    case True
    then show ?thesis
      by (simp add: extend_tail_def optimal_parses_single ins_cell_def)
  next
    case False
    then obtain p where p: "suffix_parses cf one [] ys = [p]"
      "map xCell.source p = replicate (length ys) None"
      "map xCell.target p = map Some ys"
      "map xCell.this_cost p = map (insert_fn cf) ys"
      using Cons.IH by blast
    then show ?thesis
      by (simp add: extend_tail_def optimal_parses_single ins_cell_def)
  qed
qed

lemma suffix_parses_deletes:
  "xs \<noteq> [] \<Longrightarrow>
   \<exists>p. suffix_parses cf one xs [] = [p] \<and>
       map xCell.source p = map Some xs \<and>
       map xCell.target p = replicate (length xs) None \<and>
       map xCell.this_cost p = map (delete_fn cf) xs"
proof (induction xs)
  case Nil
  then show ?case by simp
next
  case (Cons x xs)
  show ?case
  proof (cases "xs = []")
    case True
    then show ?thesis
      by (simp add: extend_tail_def optimal_parses_single del_cell_def)
  next
    case False
    then obtain p where p: "suffix_parses cf one xs [] = [p]"
      "map xCell.source p = map Some xs"
      "map xCell.target p = replicate (length xs) None"
      "map xCell.this_cost p = map (delete_fn cf) xs"
      using Cons.IH by blast
    then show ?thesis
      by (simp add: extend_tail_def optimal_parses_single del_cell_def)
  qed
qed

lemma take1_filter_first:
  assumes "filter P xs \<noteq> []"
  shows "\<exists>p pre post. take 1 (filter P xs) = [p] \<and> xs = pre @ p # post \<and> P p
           \<and> (\<forall>q \<in> set pre. \<not> P q)"
proof -
  obtain p rest where f: "filter P xs = p # rest" using assms by (cases "filter P xs") auto
  then obtain pre post where "xs = pre @ p # post" "\<forall>q \<in> set pre. \<not> P q" "P p"
    unfolding filter_eq_Cons_iff by blast
  then show ?thesis using f by auto
qed

lemma optimal_parses_first:
  assumes "cands \<noteq> []"
  shows "\<exists>p pre post. optimal_parses True cands = [p] \<and> cands = pre @ p # post
           \<and> path_cost p = Min (path_cost ` set cands)
           \<and> (\<forall>q \<in> set pre. path_cost q \<noteq> Min (path_cost ` set cands))"
proof -
  have "Min (path_cost ` set cands) \<in> path_cost ` set cands"
    using assms by (intro Min_in) auto
  then have "filter (\<lambda>p. path_cost p = Min (path_cost ` set cands)) cands \<noteq> []"
    by (auto simp: filter_empty_conv)
  from take1_filter_first [OF this] show ?thesis
    by (simp add: optimal_parses_def Let_def)
qed

section \<open>Further facts about the backtrace and the default costs\<close>

lemma cumul_ok_last:
  "cumul_ok p \<Longrightarrow> p \<noteq> [] \<Longrightarrow> cumul_cost (last p) = xCell.this_cost (last p)"
  by (induction p) auto

lemma levenshtein_InrD:
  assumes "origin_ok m"
    and "levenshtein is_mark str_s str_t src targ ins_costs del_costs sub_costs m = Inr (an, m')"
  shows "src \<noteq> [] \<and> targ \<noteq> [] \<and> m' = filled an m \<and>
         PairAnalysis.source an = src \<and> PairAnalysis.target an = targ \<and>
         ins_cost an = ins_costs \<and> del_cost an = del_costs \<and> sub_cost an = sub_costs \<and>
         source_widest an = Max (print_len is_mark str_s ` set src) \<and>
         target_widest an = Max (print_len is_mark str_t ` set targ)"
proof -
  have ne: "\<not> (src = [] \<or> targ = [])"
    using assms(2) by (auto simp: levenshtein_result [OF assms(1)])
  then show ?thesis
    using assms(2) by (auto simp: levenshtein_result [OF assms(1)] Let_def)
qed

lemma trace_ok_nonempty:
  assumes "trace_ok an bt i j" "0 < j" "j \<le> length (PairAnalysis.source an)"
  shows "bt \<noteq> []"
proof
  assume "bt = []"
  then have "take j (PairAnalysis.source an) = []" using assms(1) by (simp add: trace_ok_def)
  then show False using assms(2,3) by simp
qed

lemma default_nonneg:
  "ins_cost an = lev_ins_function \<Longrightarrow> del_cost an = lev_del_function \<Longrightarrow>
   sub_cost an = lev_sub_function \<Longrightarrow>
   0 \<le> cumulative_cost (expected_cell an i j)"
proof (induction an i j rule: expected_cell.induct)
  case (1 an)
  show ?case by simp
next
  case (2 an i)
  then show ?case by (simp add: ins_step_def lev_ins_function_def)
next
  case (3 an j)
  then show ?case by (simp add: del_step_def lev_del_function_def)
next
  case (4 an i j)
  then show ?case
    by (simp add: choose_cell_cumulative ins_step_def del_step_def sub_step_def
        lev_ins_function_def lev_del_function_def lev_sub_function_def)
qed

lemma default_diagonal:
  assumes "ins_cost an = lev_ins_function" "del_cost an = lev_del_function"
    "sub_cost an = lev_sub_function"
    and "PairAnalysis.target an = PairAnalysis.source an"
  shows "i \<le> length (PairAnalysis.source an) \<Longrightarrow>
         cumulative_cost (expected_cell an i i) = 0 \<and>
         (0 < i \<longrightarrow> expected_cell an i i
            = \<lparr>Cell.this_cost = 0, cumulative_cost = 0, operation = SUB\<rparr>)"
proof (induction i)
  case 0
  show ?case by simp
next
  case (Suc i)
  let ?S = "PairAnalysis.source an"
  let ?I = "ins_step an (expected_cell an i (Suc i)) (?S ! i)"
  let ?U = "sub_step an (expected_cell an i i) (?S ! i) (?S ! i)"
  let ?D = "del_step an (expected_cell an (Suc i) i) (?S ! i)"
  have zero: "cumulative_cost (expected_cell an i i) = 0" using Suc by simp
  have u: "?U = \<lparr>Cell.this_cost = 0, cumulative_cost = 0, operation = SUB\<rparr>"
    by (simp add: sub_step_def assms(3) lev_sub_function_def zero)
  have i: "0 \<le> cumulative_cost ?I"
    using default_nonneg [OF assms(1,2,3), of i "Suc i"]
    by (simp add: ins_step_def assms(1) lev_ins_function_def)
  have d: "0 \<le> cumulative_cost ?D"
    using default_nonneg [OF assms(1,2,3), of "Suc i" i]
    by (simp add: del_step_def assms(2) lev_del_function_def)
  have "expected_cell an (Suc i) (Suc i) = choose_cell ?I ?U ?D"
    by (simp add: assms(4))
  also have "\<dots> = ?U"
    using i d unfolding u by (simp add: choose_cell_def Let_def min_def)
  finally show ?case by (simp add: u)
qed

lemma default_backtrace_diagonal:
  fixes an :: "('a, 'a, 'c::linordered_idom) PairAnalysis"
  assumes "ins_cost an = lev_ins_function" "del_cost an = lev_del_function"
    "sub_cost an = lev_sub_function"
    and "PairAnalysis.target an = PairAnalysis.source an"
  shows "i \<le> length (PairAnalysis.source an) \<Longrightarrow>
         backtrace_loop an (filled an m) (int i) (int i) acc =
           Inr (map (\<lambda>k. \<lparr>EditStep.source = Some (PairAnalysis.source an ! k),
                           target = Some (PairAnalysis.source an ! k),
                           cell = \<lparr>Cell.this_cost = 0, cumulative_cost = 0, operation = SUB\<rparr>\<rparr>)
                   [0..<i] @ acc)"
proof (induction i arbitrary: acc)
  case 0
  show ?case using loop_end [of an "filled an m" acc] by simp
next
  case (Suc i)
  let ?c = "\<lparr>Cell.this_cost = 0, cumulative_cost = 0, operation = SUB\<rparr>
              :: ('c::linordered_idom) Cell"
  have lt: "i < length (PairAnalysis.source an)" "i < length (PairAnalysis.target an)"
    using Suc.prems by (simp_all add: assms(4))
  have here: "filled an m (Suc i, Suc i) = Some ?c"
    using default_diagonal [OF assms Suc.prems] Suc.prems
    by (simp add: filled_in_range assms(4) del: expected_cell.simps)
  have "backtrace_loop an (filled an m) (int (Suc i)) (int (Suc i)) acc =
        backtrace_loop an (filled an m) (int i) (int i)
          (\<lparr>EditStep.source = Some (PairAnalysis.source an ! i),
            target = Some (PairAnalysis.target an ! i), cell = ?c\<rparr> # acc)"
    by (rule loop_SUB [where M = "filled an m", OF lt here]) simp
  then show ?case
    using Suc.IH [of "\<lparr>EditStep.source = Some (PairAnalysis.source an ! i),
            target = Some (PairAnalysis.target an ! i), cell = ?c\<rparr> # acc"] Suc.prems
    by (simp add: assms(4))
qed

section \<open>Column widths\<close>





lemma biggest_length_in_parse_eq:
  "biggest_length_in_parse str truthy pars element_name =
     (if pars = [] then Inl ValueError
      else Inr (Max ((\<lambda>c. element_length str truthy c element_name) ` set pars)))"
proof (cases pars)
  case Nil
  then show ?thesis by (simp add: biggest_length_in_parse_def)
next
  case (Cons c cs)
  then show ?thesis
    by (simp add: biggest_length_in_parse_def Max.set_eq_fold [symmetric])
qed

lemma set_present: "set (present xs) = {e. Some e \<in> set xs}"
  by (induction xs rule: present.induct) auto

lemma Max_insert_zero:
  "finite X \<Longrightarrow> X \<noteq> {} \<Longrightarrow> Max (insert (0::nat) X) = Max X"
  by simp

lemma element_length_plain:
  assumes "\<forall>e \<in> set (present (map element_name pars)).
             truthy e \<and> (\<forall>ch \<in> set (str e). \<not> is_mark ch)"
    and "pars \<noteq> []"
  shows "Max ((\<lambda>c. element_length str truthy c element_name) ` set pars)
         = Max (insert 0 (print_len is_mark str ` set (present (map element_name pars))))"
proof -
  let ?len = "\<lambda>c. element_length str truthy c element_name"
  have each: "?len c = (case element_name c of None \<Rightarrow> 0 | Some e \<Rightarrow> print_len is_mark str e)"
    if "c \<in> set pars" for c
  proof (cases "element_name c")
    case None
    then show ?thesis by (simp add: element_length_def)
  next
    case (Some e)
    then have "e \<in> set (present (map element_name pars))"
      using that by (force simp: set_present)
    then have "truthy e" "filter (\<lambda>ch. \<not> is_mark ch) (str e) = str e"
      using assms(1) by (auto simp: filter_id_conv)
    then show ?thesis using Some by (simp add: element_length_def print_len_def)
  qed
  have "insert 0 (?len ` set pars)
        = insert 0 (print_len is_mark str ` set (present (map element_name pars)))"
  proof (intro equalityI subsetI)
    fix w assume "w \<in> insert 0 (?len ` set pars)"
    then consider "w = 0" | c where "c \<in> set pars" "w = ?len c" by auto
    then show "w \<in> insert 0 (print_len is_mark str ` set (present (map element_name pars)))"
    proof cases
      case 1
      then show ?thesis by simp
    next
      case 2
      then show ?thesis
        using each [OF 2(1)] by (cases "element_name c") (force simp: set_present)+
    qed
  next
    fix w assume "w \<in> insert 0 (print_len is_mark str ` set (present (map element_name pars)))"
    then consider "w = 0" | e where "e \<in> set (present (map element_name pars))"
      "w = print_len is_mark str e" by auto
    then show "w \<in> insert 0 (?len ` set pars)"
    proof cases
      case 1
      then show ?thesis by simp
    next
      case 2
      then obtain c where c: "c \<in> set pars" "element_name c = Some e"
        by (auto simp: set_present)
      then have "?len c = w" using each [OF c(1)] 2(2) by simp
      then show ?thesis using c(1) by blast
    qed
  qed
  moreover have "Max (insert 0 (?len ` set pars)) = Max (?len ` set pars)"
    using assms(2) by (intro Max_insert_zero) simp_all
  ultimately show ?thesis by simp
qed

section \<open>The class Levenshtein fills the same matrix as chart.py\<close>

lemma op_tag_eq [simp]:
  "op_tag x = SUBSTITUTE \<longleftrightarrow> x = SUB" "op_tag x = INSERT \<longleftrightarrow> x = INS"
  "op_tag x = DELETE \<longleftrightarrow> x = DEL" "op_tag x = lev_START \<longleftrightarrow> x = START"
  by (cases x; simp add: SUBSTITUTE_def INSERT_def DELETE_def lev_START_def)+

lemma as_analysis_simps [simp]:
  "PairAnalysis.source (as_analysis self) = sequence1 self"
  "PairAnalysis.target (as_analysis self) = sequence2 self"
  "PairAnalysis.ins_cost (as_analysis self) = Levenshtein.ins_cost self"
  "PairAnalysis.del_cost (as_analysis self) = Levenshtein.del_cost self"
  "PairAnalysis.sub_cost (as_analysis self) = Levenshtein.sub_cost self"
  by (simp_all add: as_analysis_def)

lemma as_analysis_distance [simp]:
  "as_analysis (self\<lparr>distance := table\<rparr>) = as_analysis self"
  by (simp add: as_analysis_def)

lemma as_lev_cell_simps [simp]:
  "num (as_lev_cell c) = cumulative_cost c"
  "LevCell.operation (as_lev_cell c) = op_tag (Cell.operation c)"
  by (simp_all add: as_lev_cell_def)

lemma as_distance_upd: "as_distance (m(key \<mapsto> c)) = (as_distance m)(key \<mapsto> as_lev_cell c)"
  by (auto simp: as_distance_def)

lemma as_distance_initial:
  "[(0, 0) \<mapsto> \<lparr>num = 0, operation = lev_START\<rparr>] = as_distance initial_matrix"
  by (auto simp: as_distance_def initial_matrix_def as_lev_cell_def)

lemma distance_item_as:
  "distance_item (Some (as_distance m)) (int i, int j) =
     (case m (i, j) of None \<Rightarrow> Inl KeyError | Some c \<Rightarrow> Inr (as_lev_cell c))"
  by (simp add: distance_item_def as_distance_def split: option.split)

lemma distance_item_as0:
  "distance_item (Some (as_distance m)) (int i, 0) =
     (case m (i, 0) of None \<Rightarrow> Inl KeyError | Some c \<Rightarrow> Inr (as_lev_cell c))"
  "distance_item (Some (as_distance m)) (0, int j) =
     (case m (0, j) of None \<Rightarrow> Inl KeyError | Some c \<Rightarrow> Inr (as_lev_cell c))"
  by (simp_all add: distance_item_def as_distance_def split: option.split)

lemma distance_item_matrix_item:
  "distance_item (Some (as_distance m)) key = map_sum (\<lambda>e. e) as_lev_cell (matrix_item m key)"
  by (simp add: distance_item_def matrix_item_def as_distance_def split: option.split)

lemma lev_margin_sequence2_chart:
  "lev_margin_sequence2 self (enumerate k ys) (as_distance m) =
     map_sum (\<lambda>e. e) as_distance (margin_target (as_analysis self) (enumerate (Suc k) ys) m)"
proof (induction ys arbitrary: k m)
  case Nil
  show ?case by simp
next
  case (Cons y ys)
  show ?case
  proof (cases "m (k, 0)")
    case None
    then show ?thesis by (simp add: distance_item_as0 mec_ins)
  next
    case (Some c)
    have upd: "(as_distance m)((Suc k, 0) \<mapsto>
            \<lparr>num = cumulative_cost c + Levenshtein.ins_cost self y, operation = INSERT\<rparr>) =
          as_distance (m((Suc k, 0) \<mapsto> ins_step (as_analysis self) c y))"
      by (simp add: as_distance_upd as_lev_cell_def ins_step_def)
    have ih: "lev_margin_sequence2 self (enumerate (Suc k) ys)
                (as_distance (m((Suc k, 0) \<mapsto> ins_step (as_analysis self) c y))) =
              map_sum (\<lambda>e. e) as_distance
                (margin_target (as_analysis self) (enumerate (Suc (Suc k)) ys)
                   (m((Suc k, 0) \<mapsto> ins_step (as_analysis self) c y)))"
      by (rule Cons.IH)
    show ?thesis
      using Some by (simp add: distance_item_as0 mec_ins upd ih)
  qed
qed

lemma lev_margin_sequence1_chart:
  "lev_margin_sequence1 self (enumerate k xs) (as_distance m) =
     map_sum (\<lambda>e. e) as_distance (margin_source (as_analysis self) (enumerate (Suc k) xs) m)"
proof (induction xs arbitrary: k m)
  case Nil
  show ?case by simp
next
  case (Cons x xs)
  show ?case
  proof (cases "m (0, k)")
    case None
    then show ?thesis by (simp add: distance_item_as0 mec_del)
  next
    case (Some c)
    have upd: "(as_distance m)((0, Suc k) \<mapsto>
            \<lparr>num = cumulative_cost c + Levenshtein.del_cost self x, operation = DELETE\<rparr>) =
          as_distance (m((0, Suc k) \<mapsto> del_step (as_analysis self) c x))"
      by (simp add: as_distance_upd as_lev_cell_def del_step_def)
    have ih: "lev_margin_sequence1 self (enumerate (Suc k) xs)
                (as_distance (m((0, Suc k) \<mapsto> del_step (as_analysis self) c x))) =
              map_sum (\<lambda>e. e) as_distance
                (margin_source (as_analysis self) (enumerate (Suc (Suc k)) xs)
                   (m((0, Suc k) \<mapsto> del_step (as_analysis self) c x)))"
      by (rule Cons.IH)
    show ?thesis
      using Some by (simp add: distance_item_as0 mec_del upd ih)
  qed
qed

lemma as_lev_cell_choose:
  "as_lev_cell (choose_cell (ins_step an up t) (sub_step an diag s t) (del_step an left s)) =
     (let ins_total = cumulative_cost up + PairAnalysis.ins_cost an t;
          sub_total = cumulative_cost diag + PairAnalysis.sub_cost an s t;
          del_total = cumulative_cost left + PairAnalysis.del_cost an s;
          min_cost = min (min ins_total sub_total) del_total
      in \<lparr>num = min_cost,
          operation = (if min_cost = sub_total then SUBSTITUTE
                       else if min_cost = del_total then DELETE
                       else INSERT)\<rparr>)"
  by (simp add: choose_cell_def as_lev_cell_def ins_step_def sub_step_def del_step_def Let_def)

lemma lev_body_row_chart:
  "lev_body_row self i t (enumerate k xs) (as_distance m) =
     map_sum (\<lambda>e. e) as_distance (body_row (as_analysis self) (Suc i) t (enumerate (Suc k) xs) m)"
proof (induction xs arbitrary: k m)
  case Nil
  show ?case by simp
next
  case (Cons x xs)
  let ?an = "as_analysis self"
  show ?case
  proof (cases "m (i, Suc k)")
    case None
    then show ?thesis by (simp add: distance_item_as [of m i "Suc k", simplified] mec_ins)
  next
    case up: (Some up)
    show ?thesis
    proof (cases "m (i, k)")
      case None
      then show ?thesis
        using up
        by (simp add: distance_item_as [of m i "Suc k", simplified] distance_item_as
            mec_ins mec_sub)
    next
      case diag: (Some diag)
      show ?thesis
      proof (cases "m (Suc i, k)")
        case None
        then show ?thesis
          using up diag
          by (simp add: distance_item_as [of m i "Suc k", simplified] distance_item_as
              distance_item_as [of m "Suc i" k, simplified] mec_ins mec_sub mec_del)
      next
        case left: (Some left)
        let ?c = "choose_cell (ins_step ?an up t) (sub_step ?an diag x t) (del_step ?an left x)"
        have chart: "body_row ?an (Suc i) t (enumerate (Suc k) (x # xs)) m =
                     body_row ?an (Suc i) t (enumerate (Suc (Suc k)) xs) (m((Suc i, Suc k) \<mapsto> ?c))"
          using up diag left
          by (simp add: mec_ins mec_sub mec_del choose_cell_def Let_def)
        have lev: "lev_body_row self i t (enumerate k (x # xs)) (as_distance m) =
                   lev_body_row self i t (enumerate (Suc k) xs)
                     ((as_distance m)((Suc i, Suc k) \<mapsto> as_lev_cell ?c))"
          using up diag left
          by (simp add: distance_item_as [of m i "Suc k", simplified] distance_item_as
              distance_item_as [of m "Suc i" k, simplified] as_lev_cell_choose Let_def)
        have ih: "lev_body_row self i t (enumerate (Suc k) xs)
                    (as_distance (m((Suc i, Suc k) \<mapsto> ?c))) =
                  map_sum (\<lambda>e. e) as_distance
                    (body_row ?an (Suc i) t (enumerate (Suc (Suc k)) xs)
                       (m((Suc i, Suc k) \<mapsto> ?c)))"
          by (rule Cons.IH)
        show ?thesis
          unfolding chart lev by (simp only: ih flip: as_distance_upd)
      qed
    qed
  qed
qed

lemma lev_body_chart:
  "lev_body self (enumerate k ys) (as_distance m) =
     map_sum (\<lambda>e. e) as_distance (body (as_analysis self) (enumerate (Suc k) ys) m)"
proof (induction ys arbitrary: k m)
  case Nil
  show ?case by simp
next
  case (Cons y ys)
  show ?case
  proof (cases "body_row (as_analysis self) (Suc k) y (enumerate (Suc 0) (sequence1 self)) m")
    case (Inl e)
    then show ?thesis by (simp add: lev_body_row_chart enumerate1_eq)
  next
    case (Inr m')
    then show ?thesis
      using Cons.IH [of "Suc k" m']
      by (simp add: lev_body_row_chart enumerate1_eq)
  qed
qed

lemma lev_compute_result:
  "lev_compute_min_edit_distance self =
     Inr (cumulative_cost (expected_cell (as_analysis self)
            (length (sequence2 self)) (length (sequence1 self))),
          self\<lparr>distance := Some (as_distance (filled (as_analysis self) initial_matrix))\<rparr>)"
proof -
  let ?an = "as_analysis self"
  obtain m1 m2 where
    one: "margin_target ?an (enumerate1 (PairAnalysis.target ?an)) initial_matrix = Inr m1" and
    two: "margin_source ?an (enumerate1 (PairAnalysis.source ?an)) m1 = Inr m2" and
    three: "body ?an (enumerate1 (PairAnalysis.target ?an)) m2 = Inr (filled ?an initial_matrix)"
    using compute_result [OF origin_ok_initial, of ?an]
    by (auto simp: compute_min_edit_distance_def split: sum.splits)
  have l1: "lev_margin_sequence2 self (enumerate 0 (sequence2 self)) (as_distance initial_matrix)
              = Inr (as_distance m1)"
    using one by (simp add: lev_margin_sequence2_chart enumerate1_eq)
  have l2: "lev_margin_sequence1 self (enumerate 0 (sequence1 self)) (as_distance m1)
              = Inr (as_distance m2)"
    using two by (simp add: lev_margin_sequence1_chart enumerate1_eq)
  have l3: "lev_body self (enumerate 0 (sequence2 self)) (as_distance m2)
              = Inr (as_distance (filled ?an initial_matrix))"
    using three by (simp add: lev_body_chart enumerate1_eq)
  have l4: "lev_min_edit_distance
              (self\<lparr>distance := Some (as_distance (filled ?an initial_matrix))\<rparr>) =
            Inr (cumulative_cost (expected_cell ?an (length (sequence2 self))
                   (length (sequence1 self))))"
    by (simp add: lev_min_edit_distance_def distance_item_as filled_def)
  show ?thesis
    unfolding lev_compute_min_edit_distance_def as_distance_initial
    by (simp only: l1 l2 l3 l4 sum.case Let_def)
qed

lemma alignment_facts_loop_chart:
  assumes "distance self = Some (as_distance m)"
  shows "alignment_facts_loop self position1 position2 (map as_unit acc) =
         map_sum (\<lambda>e. e) (map as_unit)
           (backtrace_loop (as_analysis self) m position1 position2 acc)"
  using assms
proof (induction "as_analysis self" m position1 position2 acc rule: backtrace_loop.induct)
  case (1 m src_pos targ_pos acc)
  note ih = "1.hyps" and d = "1.prems"
  show ?case
  proof (cases "src_pos > 0 \<or> targ_pos > 0")
    case False
    then show ?thesis
      by (simp add: alignment_facts_loop.simps backtrace_loop.simps)
  next
    case True
    show ?thesis
    proof (cases "matrix_item m (targ_pos, src_pos)")
      case (Inl e)
      then show ?thesis
        using True
        by (simp add: alignment_facts_loop.simps [of self src_pos targ_pos]
            backtrace_loop.simps [of _ m src_pos targ_pos] d distance_item_matrix_item)
    next
      case (Inr c)
      show ?thesis
        apply (subst alignment_facts_loop.simps)
        apply (subst backtrace_loop.simps)
        using True Inr ih [OF True Inr]
        apply (simp add: d distance_item_matrix_item Let_def as_unit_def split: sum.split)
        done
    qed
  qed
qed

lemma set_pair_result:
  "\<exists>v self'.
     set_pair is_mark str1 str2 self seq1 seq2 = Inr (v, self') \<and>
     sequence1 self' = seq1 \<and> sequence2 self' = seq2 \<and>
     Levenshtein.ins_cost self' = Levenshtein.ins_cost self \<and>
     Levenshtein.del_cost self' = Levenshtein.del_cost self \<and>
     Levenshtein.sub_cost self' = Levenshtein.sub_cost self \<and>
     widest_sequence1_char self' = Some (lev_greatest_width is_mark str1 seq1) \<and>
     widest_sequence2_char self' = Some (lev_greatest_width is_mark str2 seq2) \<and>
     distance self' = Some (as_distance (filled (as_analysis self') initial_matrix)) \<and>
     v = cumulative_cost (expected_cell (as_analysis self') (length seq2) (length seq1))"
  by (simp add: set_pair_def lev_compute_result as_analysis_def)

lemma alignment_facts_filled:
  assumes "distance self = Some (as_distance (filled (as_analysis self) initial_matrix))"
  shows "\<exists>bt. alignment_facts self = Inr (map as_unit bt) \<and>
              trace_ok (as_analysis self) bt (length (sequence2 self)) (length (sequence1 self))"
proof -
  obtain bt where bt: "get_one_backtrace (as_analysis self)
        (filled (as_analysis self) initial_matrix) = Inr bt"
    "trace_ok (as_analysis self) bt (length (sequence2 self)) (length (sequence1 self))"
    using get_one_backtrace_filled [of "as_analysis self" initial_matrix] by auto
  have "alignment_facts self = Inr (map as_unit bt)"
    using alignment_facts_loop_chart [OF assms, of "int (length (sequence1 self))"
        "int (length (sequence2 self))" "[]"] bt(1)
    by (simp add: alignment_facts_def get_one_backtrace_def)
  then show ?thesis using bt(2) by blast
qed

lemma lev_min_edit_distance_filled:
  assumes "distance self = Some (as_distance (filled (as_analysis self) initial_matrix))"
  shows "lev_min_edit_distance self =
         Inr (cumulative_cost (expected_cell (as_analysis self)
                (length (sequence2 self)) (length (sequence1 self))))"
  by (simp add: lev_min_edit_distance_def assms distance_item_as filled_def)

lemma as_distance_Some:
  "m key = Some c \<Longrightarrow> as_distance m key = Some (as_lev_cell c)"
  by (simp add: as_distance_def)

lemma trace_ok_units:
  assumes "trace_ok an bt i j" "bt \<noteq> []"
  shows "snd (snd (last (map as_unit bt))) =
         sum_list (map (\<lambda>u. step_cost (PairAnalysis.ins_cost an) (PairAnalysis.del_cost an)
                              (PairAnalysis.sub_cost an) (fst u, fst (snd u)))
                     (map as_unit bt))"
proof -
  have "\<forall>st \<in> set bt. Cell.this_cost (cell st) =
          step_cost (PairAnalysis.ins_cost an) (PairAnalysis.del_cost an)
            (PairAnalysis.sub_cost an) (EditStep.source st, EditStep.target st)"
    using assms(1) by (simp add: trace_ok_def)
  then have steps: "map (\<lambda>u. step_cost (PairAnalysis.ins_cost an) (PairAnalysis.del_cost an)
                    (PairAnalysis.sub_cost an) (fst u, fst (snd u))) (map as_unit bt) =
        map (\<lambda>st. Cell.this_cost (cell st)) bt"
    by (simp add: as_unit_def)
  have "snd (snd (last (map as_unit bt))) = cumulative_cost (cell (last bt))"
    using assms(2) by (simp add: last_map as_unit_def)
  also have "\<dots> = sum_list (map (\<lambda>st. Cell.this_cost (cell st)) bt)"
    using assms by (simp add: trace_ok_def)
  finally show ?thesis
    by (simp only: steps)
qed

lemmas lev_eval = set_pair_def lev_compute_min_edit_distance_def lev_min_edit_distance_def
  distance_item_def init_Levenshtein_def lev_greatest_width_def lev_print_len_def
  alignment_facts_def alignment_facts_loop.simps py_index_def
  lev_START_def INSERT_def DELETE_def SUBSTITUTE_def
  lev_ins_function_def lev_del_function_def lev_sub_function_def Let_def

text \<open>The example of the docstring of \<open>alignment_facts\<close>.\<close>

lemma alignment_facts_dag_doge:
  "\<exists>self'. set_pair (\<lambda>c. False) (\<lambda>c. [of_char c]) (\<lambda>c. [of_char c])
        (init_Levenshtein lev_ins_function lev_del_function lev_sub_function
           :: (char, char, int) Levenshtein) ''dag'' ''doge'' = Inr (3, self') \<and>
     alignment_facts self' =
       Inr [(Some CHR ''d'', Some CHR ''d'', 0), (Some CHR ''a'', Some CHR ''o'', 2),
            (Some CHR ''g'', Some CHR ''g'', 2), (None, Some CHR ''e'', 3)]"
  by (simp add: lev_eval)

section \<open>The class Levenshtein, the enumerator and the default costs\<close>

lemma levenshtein_empty:
  "src = [] \<or> targ = [] \<Longrightarrow>
   levenshtein is_mark str_s str_t src targ ins_costs del_costs sub_costs m = Inl ValueError"
  by (auto simp: levenshtein_def greatest_width_eq)

lemma set_pair_suffix_cost:
  "\<exists>self'.
     set_pair is_mark str1 str2
       (init_Levenshtein (insert_fn cf) (delete_fn cf) (substitute_fn cf)) src targ
       = Inr (suffix_cost cf src targ, self') \<and>
     lev_min_edit_distance self' = Inr (suffix_cost cf src targ)"
proof -
  let ?self = "init_Levenshtein (insert_fn cf) (delete_fn cf) (substitute_fn cf)"
  obtain v self' where run: "set_pair is_mark str1 str2 ?self src targ = Inr (v, self')"
    and sel: "sequence1 self' = src" "sequence2 self' = targ"
      "Levenshtein.ins_cost self' = Levenshtein.ins_cost ?self"
      "Levenshtein.del_cost self' = Levenshtein.del_cost ?self"
      "Levenshtein.sub_cost self' = Levenshtein.sub_cost ?self"
    and d: "distance self' = Some (as_distance (filled (as_analysis self') initial_matrix))"
    and v: "v = cumulative_cost (expected_cell (as_analysis self') (length targ) (length src))"
    using set_pair_result [of is_mark str1 str2 ?self src targ] by blast
  have costs: "PairAnalysis.ins_cost (as_analysis self') = insert_fn cf"
    "PairAnalysis.del_cost (as_analysis self') = delete_fn cf"
    "PairAnalysis.sub_cost (as_analysis self') = substitute_fn cf"
    by (simp_all add: sel init_Levenshtein_def)
  have "v = suffix_cost cf src targ"
    using engines_agree [OF costs] v sel(1,2) by simp
  moreover have "lev_min_edit_distance self' = Inr v"
    using lev_min_edit_distance_filled [OF d] v sel(1,2) by simp
  ultimately show ?thesis using run by blast
qed

lemma suffix_parses_one:
  assumes "\<not> (xs = [] \<and> ys = [])"
  shows "\<exists>p. suffix_parses cf True xs ys = [p]"
proof -
  have ne: "suffix_parses cf True xs ys \<noteq> []"
    using suffix_parses_props [of cf True xs ys] assms by blast
  have "length (suffix_parses cf True xs ys) \<le> 1"
    by (cases xs; cases ys) (simp_all add: optimal_parses_def Let_def)
  then show ?thesis
    using ne by (cases "suffix_parses cf True xs ys") auto
qed


lemma set_pair_self:
  fixes s :: "'a list"
  shows "\<exists>self' d.
     set_pair is_mark str1 str2
       (init_Levenshtein lev_ins_function lev_del_function lev_sub_function
          :: ('a, 'a, 'c::linordered_idom) Levenshtein) s s = Inr (0, self') \<and>
     lev_min_edit_distance self' = Inr 0 \<and>
     alignment_facts self' = Inr (map (\<lambda>x. (Some x, Some x, 0)) s) \<and>
     distance self' = Some d \<and>
     list_all (\<lambda>k. d (k, k) = Some \<lparr>num = 0, operation = SUBSTITUTE\<rparr>) [1..<Suc (length s)]"
proof -
  let ?self = "init_Levenshtein lev_ins_function lev_del_function lev_sub_function
                 :: ('a, 'a, 'c) Levenshtein"
  obtain v self' where run: "set_pair is_mark str1 str2 ?self s s = Inr (v, self')"
    and sel: "sequence1 self' = s" "sequence2 self' = s"
      "Levenshtein.ins_cost self' = Levenshtein.ins_cost ?self"
      "Levenshtein.del_cost self' = Levenshtein.del_cost ?self"
      "Levenshtein.sub_cost self' = Levenshtein.sub_cost ?self"
    and d: "distance self' = Some (as_distance (filled (as_analysis self') initial_matrix))"
    and v: "v = cumulative_cost (expected_cell (as_analysis self') (length s) (length s))"
    using set_pair_result [of is_mark str1 str2 ?self s s] by blast
  let ?an = "as_analysis self'"
  have costs: "PairAnalysis.ins_cost ?an = lev_ins_function"
    "PairAnalysis.del_cost ?an = lev_del_function"
    "PairAnalysis.sub_cost ?an = lev_sub_function"
    by (simp_all add: sel init_Levenshtein_def)
  have ts: "PairAnalysis.target ?an = PairAnalysis.source ?an" by (simp add: sel)
  have src: "PairAnalysis.source ?an = s" by (simp add: sel)
  have diag: "cumulative_cost (expected_cell ?an k k) = 0 \<and>
         (0 < k \<longrightarrow> expected_cell ?an k k
            = \<lparr>Cell.this_cost = 0, cumulative_cost = 0, operation = SUB\<rparr>)"
    if "k \<le> length s" for k
  proof -
    have "k \<le> length (PairAnalysis.source ?an)" using that src by simp
    from default_diagonal [OF costs ts this] show ?thesis .
  qed
  have v0: "v = 0" using diag [of "length s"] v by simp
  have dist: "lev_min_edit_distance self' = Inr 0"
    using lev_min_edit_distance_filled [OF d] v v0 sel(1,2) by simp
  have "backtrace_loop ?an (filled ?an initial_matrix) (int (length s)) (int (length s)) [] =
          Inr (map (\<lambda>k. \<lparr>EditStep.source = Some (s ! k), target = Some (s ! k),
                          cell = \<lparr>Cell.this_cost = 0, cumulative_cost = 0, operation = SUB\<rparr>\<rparr>)
                 [0..<length s])"
    using default_backtrace_diagonal [OF costs ts, of "length s" initial_matrix "[]"]
    by (simp add: sel(1,2))
  then have "alignment_facts self' =
          Inr (map as_unit (map (\<lambda>k. \<lparr>EditStep.source = Some (s ! k), target = Some (s ! k),
                          cell = \<lparr>Cell.this_cost = 0, cumulative_cost = 0, operation = SUB\<rparr>\<rparr>)
                 [0..<length s]))"
    using alignment_facts_loop_chart [OF d, of "int (length s)" "int (length s)" "[]"]
    by (simp add: alignment_facts_def sel(1,2))
  also have "map as_unit (map (\<lambda>k. \<lparr>EditStep.source = Some (s ! k), target = Some (s ! k),
                          cell = \<lparr>Cell.this_cost = 0, cumulative_cost = 0, operation = SUB\<rparr>\<rparr>)
                 [0..<length s]) =
             map (\<lambda>x. (Some x, Some x, 0)) (map (\<lambda>k. s ! k) [0..<length s])"
    by (simp add: as_unit_def)
  also have "map (\<lambda>k. s ! k) [0..<length s] = s" by (rule map_nth)
  finally have facts: "alignment_facts self' = Inr (map (\<lambda>x. (Some x, Some x, 0)) s)" .
  have cells: "list_all (\<lambda>k. as_distance (filled ?an initial_matrix) (k, k)
                   = Some \<lparr>num = 0, operation = SUBSTITUTE\<rparr>) [1..<Suc (length s)]"
    unfolding list_all_iff
  proof
    fix k assume "k \<in> set [1..<Suc (length s)]"
    then have k: "0 < k" "k \<le> length s" by auto
    have "filled ?an initial_matrix (k, k) = Some (expected_cell ?an k k)"
      using k by (intro filled_in_range) (simp_all add: sel)
    then show "as_distance (filled ?an initial_matrix) (k, k)
                 = Some \<lparr>num = 0, operation = SUBSTITUTE\<rparr>"
      using diag [OF k(2)] k(1) by (simp add: as_distance_def as_lev_cell_def)
  qed
  show ?thesis
    using run v0 dist facts d cells by blast
qed

lemma origin_candidates:
  fixes cf :: "('a, 'b, 'c::linordered_idom) CostFunctions"
  assumes ne: "\<not> (src = [] \<and> targ = [])"
  shows "\<exists>A B C.
     (if src \<noteq> [] \<and> targ \<noteq> []
      then \<exists>mem. try_op (fst (arguments src targ cf one)) (0, 0) xSUB Map.empty = Inr (A, mem)
      else A = []) \<and>
     (if src \<noteq> []
      then \<exists>mem. try_op (fst (arguments src targ cf one)) (0, 0) xDEL Map.empty = Inr (B, mem)
      else B = []) \<and>
     (if targ \<noteq> []
      then \<exists>mem. try_op (fst (arguments src targ cf one)) (0, 0) xINS Map.empty = Inr (C, mem)
      else C = []) \<and>
     suffix_parses cf one src targ = optimal_parses one (A @ B @ C) \<and>
     A @ B @ C \<noteq> [] \<and> [] \<notin> set (A @ B @ C)"
proof -
  let ?args = "\<lparr>Arguments.source = src, target = targ, cost_functions = cf, just_one = one\<rparr>"
  have args: "fst (arguments src targ cf one) = ?args" by (simp add: arguments_def)
  have le: "0 \<le> length (Arguments.source ?args)" "0 \<le> length (Arguments.target ?args)"
    by simp_all
  let ?A = "extend_tail (sub_cell cf (src ! 0) (targ ! 0)) (expected_parses ?args (Suc 0, Suc 0))"
  let ?B = "extend_tail (del_cell cf (src ! 0)) (expected_parses ?args (Suc 0, 0))"
  let ?C = "extend_tail (ins_cell cf (targ ! 0)) (expected_parses ?args (0, Suc 0))"
  have A: "\<exists>mem. try_op ?args (0, 0) xSUB Map.empty = Inr (?A, mem)"
    if "src \<noteq> []" "targ \<noteq> []"
  proof -
    have len: "0 < length (Arguments.source ?args)" "0 < length (Arguments.target ?args)"
      using that by simp_all
    have one: "Suc 0 \<le> length (Arguments.source ?args)" "Suc 0 \<le> length (Arguments.target ?args)"
      using that by (simp_all add: Suc_le_eq)
    have rel: "relate_ok ?args (Suc 0, Suc 0)" by (rule relate_ok_all [OF one])
    have "\<exists>mem'. try_op ?args (0, 0) xSUB Map.empty = Inr (?A, mem') \<and> memory_ok ?args mem'"
      using try_op_SUB [OF len rel memory_ok_empty] by simp
    then show ?thesis by blast
  qed
  have B: "\<exists>mem. try_op ?args (0, 0) xDEL Map.empty = Inr (?B, mem)" if "src \<noteq> []"
  proof -
    have len: "0 < length (Arguments.source ?args)" using that by simp
    have one: "Suc 0 \<le> length (Arguments.source ?args)" using that by (simp add: Suc_le_eq)
    have rel: "relate_ok ?args (Suc 0, 0)" by (rule relate_ok_all [OF one le(2)])
    have "\<exists>mem'. try_op ?args (0, 0) xDEL Map.empty = Inr (?B, mem') \<and> memory_ok ?args mem'"
      using try_op_DEL [OF len le(2) rel memory_ok_empty] by simp
    then show ?thesis by blast
  qed
  have C: "\<exists>mem. try_op ?args (0, 0) xINS Map.empty = Inr (?C, mem)" if "targ \<noteq> []"
  proof -
    have len: "0 < length (Arguments.target ?args)" using that by simp
    have one: "Suc 0 \<le> length (Arguments.target ?args)" using that by (simp add: Suc_le_eq)
    have rel: "relate_ok ?args (0, Suc 0)" by (rule relate_ok_all [OF le(1) one])
    have "\<exists>mem'. try_op ?args (0, 0) xINS Map.empty = Inr (?C, mem') \<and> memory_ok ?args mem'"
      using try_op_INS [OF le(1) len rel memory_ok_empty] by simp
    then show ?thesis by blast
  qed
  consider (both) "src \<noteq> []" "targ \<noteq> []" | (del) "src \<noteq> []" "targ = []"
    | (ins) "src = []" "targ \<noteq> []"
    using ne by blast
  then show ?thesis
  proof cases
    case both
    have len: "0 < length (Arguments.source ?args)" "0 < length (Arguments.target ?args)"
      using both by simp_all
    have whole: "suffix_parses cf one src targ = optimal_parses one (?A @ ?B @ ?C)"
      using expected_parses_both [OF len] by (simp add: expected_parses_def)
    have "?A @ ?B @ ?C \<noteq> []" "[] \<notin> set (?A @ ?B @ ?C)"
      by (simp_all add: extend_tail_nonempty extend_tail_no_empty)
    then show ?thesis
      unfolding args using both A [OF both] B [OF both(1)] C [OF both(2)] whole
      by (intro exI [of _ ?A] exI [of _ ?B] exI [of _ ?C]) simp
  next
    case del
    have len: "0 < length (Arguments.source ?args)" using del by simp
    have "expected_parses ?args (0, length (Arguments.target ?args)) =
            optimal_parses (just_one ?args)
              (extend_tail (del_cell (cost_functions ?args) (Arguments.source ?args ! 0))
                 (expected_parses ?args (Suc 0, length (Arguments.target ?args))))"
      by (rule expected_parses_del [OF len])
    then have whole: "suffix_parses cf one src targ = optimal_parses one ([] @ ?B @ [])"
      using del by (simp add: expected_parses_def)
    have "[] @ ?B @ [] \<noteq> []" "[] \<notin> set ([] @ ?B @ [])"
      by (simp_all add: extend_tail_nonempty extend_tail_no_empty)
    then show ?thesis
      unfolding args using del B [OF del(1)] whole
      by (intro exI [of _ "[]"] exI [of _ ?B]) simp
  next
    case ins
    have len: "0 < length (Arguments.target ?args)" using ins by simp
    have "expected_parses ?args (length (Arguments.source ?args), 0) =
            optimal_parses (just_one ?args)
              (extend_tail (ins_cell (cost_functions ?args) (Arguments.target ?args ! 0))
                 (expected_parses ?args (length (Arguments.source ?args), Suc 0)))"
      by (rule expected_parses_ins [OF len])
    then have whole: "suffix_parses cf one src targ = optimal_parses one ([] @ [] @ ?C)"
      using ins by (simp add: expected_parses_def)
    have "[] @ [] @ ?C \<noteq> []" "[] \<notin> set ([] @ [] @ ?C)"
      by (simp_all add: extend_tail_nonempty extend_tail_no_empty)
    then show ?thesis
      unfolding args using ins C [OF ins(2)] whole
      by (intro exI [of _ "[]"] exI [of _ ?C]) simp
  qed
qed

lemma just_one_first_minimal:
  fixes cf :: "('a, 'b, 'c::linordered_idom) CostFunctions"
  assumes ne: "\<not> (src = [] \<and> targ = [])"
  shows "\<exists>p A B C pre post.
     relate_arguments src targ cf True = Inr [p] \<and>
     parse_cost p = Inr (suffix_cost cf src targ) \<and>
     (if src \<noteq> [] \<and> targ \<noteq> []
      then \<exists>mem. try_op (fst (arguments src targ cf True)) (0, 0) xSUB Map.empty = Inr (A, mem)
      else A = []) \<and>
     (if src \<noteq> []
      then \<exists>mem. try_op (fst (arguments src targ cf True)) (0, 0) xDEL Map.empty = Inr (B, mem)
      else B = []) \<and>
     (if targ \<noteq> []
      then \<exists>mem. try_op (fst (arguments src targ cf True)) (0, 0) xINS Map.empty = Inr (C, mem)
      else C = []) \<and>
     A @ B @ C = pre @ p # post \<and>
     (\<forall>q \<in> set pre. parse_cost q \<noteq> Inr (suffix_cost cf src targ)) \<and>
     (\<forall>q \<in> set (A @ B @ C). \<exists>e. parse_cost q = Inr e \<and> suffix_cost cf src targ \<le> e)"
proof -
  let ?d = "suffix_cost cf src targ"
  obtain A B C where
    a: "if src \<noteq> [] \<and> targ \<noteq> []
        then \<exists>mem. try_op (fst (arguments src targ cf True)) (0, 0) xSUB Map.empty = Inr (A, mem)
        else A = []"
    and b: "if src \<noteq> []
        then \<exists>mem. try_op (fst (arguments src targ cf True)) (0, 0) xDEL Map.empty = Inr (B, mem)
        else B = []"
    and c: "if targ \<noteq> []
        then \<exists>mem. try_op (fst (arguments src targ cf True)) (0, 0) xINS Map.empty = Inr (C, mem)
        else C = []"
    and whole: "suffix_parses cf True src targ = optimal_parses True (A @ B @ C)"
    and nonempty: "A @ B @ C \<noteq> []" and noempty: "[] \<notin> set (A @ B @ C)"
    using origin_candidates [OF ne, of cf True] by blast
  obtain p pre post where p: "optimal_parses True (A @ B @ C) = [p]"
    "A @ B @ C = pre @ p # post"
    "path_cost p = Min (path_cost ` set (A @ B @ C))"
    "\<forall>q \<in> set pre. path_cost q \<noteq> Min (path_cost ` set (A @ B @ C))"
    using optimal_parses_first [OF nonempty] by blast
  have "p \<in> set (suffix_parses cf True src targ)" using whole p(1) by simp
  then have pd: "path_cost p = ?d"
    using suffix_parses_props [of cf True src targ] by blast
  have mn: "Min (path_cost ` set (A @ B @ C)) = ?d" using p(3) pd by simp
  have pc: "parse_cost q = Inr (path_cost q)" if "q \<in> set (A @ B @ C)" for q
    using that noempty by (intro parse_cost_path_cost) metis
  have in_pre: "q \<in> set (A @ B @ C)" if "q \<in> set pre" for q
    using that unfolding p(2) by simp
  have 1: "relate_arguments src targ cf True = Inr [p]"
    using whole p(1) by (simp add: relate_arguments_eq)
  have 2: "parse_cost p = Inr ?d"
    using pc [of p] pd unfolding p(2) by simp
  have 3: "\<forall>q \<in> set pre. parse_cost q \<noteq> Inr ?d"
    using p(4) pc in_pre mn by auto
  have 4: "\<forall>q \<in> set (A @ B @ C). \<exists>e. parse_cost q = Inr e \<and> ?d \<le> e"
  proof
    fix q assume q: "q \<in> set (A @ B @ C)"
    have "Min (path_cost ` set (A @ B @ C)) \<le> path_cost q"
      using q by (intro Min_le) auto
    then show "\<exists>e. parse_cost q = Inr e \<and> ?d \<le> e"
      using pc [OF q] mn by simp
  qed
  show ?thesis
    using 1 2 a b c p(2) 3 4 by blast
qed

lemma chart_distance_suffix_cost:
  assumes "origin_ok m"
    and "levenshtein is_mark str_s str_t src targ
           (insert_fn cf) (delete_fn cf) (substitute_fn cf) m = Inr (an, m')"
  shows "min_edit_distance an m' = Inr (suffix_cost cf src targ)"
proof -
  have an: "m' = filled an m" "PairAnalysis.source an = src" "PairAnalysis.target an = targ"
    "PairAnalysis.ins_cost an = insert_fn cf" "PairAnalysis.del_cost an = delete_fn cf"
    "PairAnalysis.sub_cost an = substitute_fn cf"
    using levenshtein_InrD [OF assms] by simp_all
  show ?thesis
    using engines_agree [OF an(4,5,6)] by (simp add: an(1) min_edit_distance_filled an(2,3))
qed

section \<open>What holds of the tabular engine when no sequence is empty\<close>

text \<open>
  With costs that are added exactly, the two engines agree wherever \<open>chart.levenshtein\<close>
  returns, and a sequence is at distance 0 from itself.
\<close>

lemma engine_agreement_nonempty:
  assumes "origin_ok m" and "src \<noteq> []" and "targ \<noteq> []"
  shows "\<exists>an m' d parses.
     levenshtein is_mark str_s str_t src targ
       (insert_fn cf) (delete_fn cf) (substitute_fn cf) m = Inr (an, m') \<and>
     min_edit_distance an m' = Inr d \<and>
     relate_arguments src targ cf one = Inr parses \<and> parses \<noteq> [] \<and>
     (\<forall>p \<in> set parses. parse_cost p = Inr d)"
proof -
  obtain an where an: "levenshtein is_mark str_s str_t src targ
       (insert_fn cf) (delete_fn cf) (substitute_fn cf) m = Inr (an, filled an m)"
    "PairAnalysis.source an = src" "PairAnalysis.target an = targ"
    "ins_cost an = insert_fn cf" "del_cost an = delete_fn cf" "sub_cost an = substitute_fn cf"
    using levenshtein_nonempty [OF assms] by blast
  let ?d = "suffix_cost cf src targ"
  have d: "min_edit_distance an (filled an m) = Inr ?d"
    using engines_agree [OF an(4,5,6)] by (simp add: min_edit_distance_filled an(2,3))
  have ne: "suffix_parses cf one src targ \<noteq> []"
    using suffix_parses_props [of cf one src targ] assms(2) by blast
  have costs: "\<forall>p \<in> set (suffix_parses cf one src targ). parse_cost p = Inr ?d"
  proof
    fix p assume "p \<in> set (suffix_parses cf one src targ)"
    then have "parse_ok cf p src targ" "path_cost p = ?d"
      using suffix_parses_props [of cf one src targ] by blast+
    then show "parse_cost p = Inr ?d"
      by (simp add: parse_cost_path_cost parse_ok_def)
  qed
  show ?thesis
    using an(1) d relate_arguments_eq [of src targ cf one] ne costs by blast
qed

lemma self_identity_nonempty:
  assumes "origin_ok m" and "s \<noteq> []"
  shows "\<exists>an m' bt.
     levenshtein is_mark str_s str_t s s lev_ins_function lev_del_function lev_sub_function m
       = Inr (an, m') \<and>
     min_edit_distance an m' = Inr 0 \<and>
     get_one_backtrace an m' = Inr bt \<and>
     map EditStep.source bt = map Some s \<and>
     (\<forall>st \<in> set bt. operation (cell st) = SUB \<and> Cell.this_cost (cell st) = 0 \<and>
                     EditStep.target st = EditStep.source st)"
proof -
  obtain an where an: "levenshtein is_mark str_s str_t s s
       lev_ins_function lev_del_function lev_sub_function m = Inr (an, filled an m)"
    "PairAnalysis.source an = s" "PairAnalysis.target an = s"
    "ins_cost an = lev_ins_function" "del_cost an = lev_del_function"
    "sub_cost an = lev_sub_function"
    using levenshtein_nonempty [OF assms(1,2,2)] by blast
  have ts: "PairAnalysis.target an = PairAnalysis.source an" using an(2,3) by simp
  let ?bt = "map (\<lambda>k. \<lparr>EditStep.source = Some (s ! k), target = Some (s ! k),
                cell = \<lparr>Cell.this_cost = 0, cumulative_cost = 0, operation = SUB\<rparr>\<rparr>)
               [0..<length s]"
  have d: "min_edit_distance an (filled an m) = Inr 0"
    using default_diagonal [OF an(4,5,6) ts, of "length s"]
    by (simp add: min_edit_distance_filled an(2,3) del: expected_cell.simps)
  have bt: "get_one_backtrace an (filled an m) = Inr ?bt"
    using default_backtrace_diagonal [OF an(4,5,6) ts, of "length s" m "[]"]
    by (simp add: get_one_backtrace_def an(2,3))
  have "map (\<lambda>k. Some (s ! k)) [0..<length s] = map Some (map (\<lambda>k. s ! k) [0..<length s])"
    by (simp add: comp_def)
  then have src: "map EditStep.source ?bt = map Some s"
    by (simp add: comp_def map_nth)
  have all: "\<forall>st \<in> set ?bt. operation (cell st) = SUB \<and> Cell.this_cost (cell st) = 0 \<and>
                     EditStep.target st = EditStep.source st"
    by auto
  show ?thesis
    using an(1) d bt src all by blast
qed

section \<open>The lines of the formatters\<close>












section \<open>The claims\<close>

text \<open>
  Claim C2. After \<open>chart.levenshtein\<close> has run (on any state of the shared matrix whose
  origin is the START cell), every body position \<open>(i, j)\<close> with \<open>1 \<le> i \<le> |target|\<close> and
  \<open>1 \<le> j \<le> |source|\<close> holds a cell whose cumulative cost is the least of the three
  candidates: the cell above plus the insertion cost of \<open>target[i-1]\<close>, the diagonal cell
  plus the substitution cost of \<open>source[j-1]\<close> by \<open>target[i-1]\<close>, the cell to the left plus
  the deletion cost of \<open>source[j-1]\<close>. Its operation is SUB when the substitution
  candidate attains that least cost, else DEL when the deletion candidate does, else INS.
  The same holds of the matrix that \<open>Levenshtein.set_pair\<close> leaves in the object, whatever
  the object held before, with the tags SUBSTITUTE, DELETE and INSERT.
\<close>

theorem C2_body_recurrence:
  assumes "origin_ok m" and "1 \<le> i" and "i \<le> length targ" and "1 \<le> j" and "j \<le> length src"
  shows "(\<exists>an m' c up diag left.
     levenshtein is_mark str_s str_t src targ ins_costs del_costs sub_costs m = Inr (an, m') \<and>
     m' (i, j) = Some c \<and> m' (i - 1, j) = Some up \<and>
     m' (i - 1, j - 1) = Some diag \<and> m' (i, j - 1) = Some left \<and>
     cumulative_cost c =
       min (cumulative_cost up + ins_costs (targ ! (i - 1)))
           (min (cumulative_cost diag + sub_costs (src ! (j - 1)) (targ ! (i - 1)))
                (cumulative_cost left + del_costs (src ! (j - 1)))) \<and>
     Cell.operation c =
       (if cumulative_cost diag + sub_costs (src ! (j - 1)) (targ ! (i - 1)) = cumulative_cost c
        then SUB
        else if cumulative_cost left + del_costs (src ! (j - 1)) = cumulative_cost c then DEL
        else INS)) \<and>
   (\<exists>v self' d c up diag left.
     set_pair is_mark str_s str_t self src targ = Inr (v, self') \<and> distance self' = Some d \<and>
     d (i, j) = Some c \<and> d (i - 1, j) = Some up \<and>
     d (i - 1, j - 1) = Some diag \<and> d (i, j - 1) = Some left \<and>
     num c =
       min (num up + Levenshtein.ins_cost self (targ ! (i - 1)))
           (min (num diag + Levenshtein.sub_cost self (src ! (j - 1)) (targ ! (i - 1)))
                (num left + Levenshtein.del_cost self (src ! (j - 1)))) \<and>
     LevCell.operation c =
       (if num diag + Levenshtein.sub_cost self (src ! (j - 1)) (targ ! (i - 1)) = num c
        then SUBSTITUTE
        else if num left + Levenshtein.del_cost self (src ! (j - 1)) = num c then DELETE
        else INSERT))"
proof (rule conjI)
  obtain i' j' where ij: "i = Suc i'" "j = Suc j'"
    using assms(2,4) by (cases i; cases j) auto
  define an where "an = \<lparr>PairAnalysis.source = src,
                    source_widest = Max (print_len is_mark str_s ` set src),
                    target = targ,
                    target_widest = Max (print_len is_mark str_t ` set targ),
                    ins_cost = ins_costs, del_cost = del_costs, sub_cost = sub_costs\<rparr>"
  have ne: "src \<noteq> []" "targ \<noteq> []" using assms ij by auto
  have run: "levenshtein is_mark str_s str_t src targ ins_costs del_costs sub_costs m
               = Inr (an, filled an m)"
    using ne by (simp add: levenshtein_result [OF assms(1)] an_def Let_def)
  have sel: "PairAnalysis.source an = src" "PairAnalysis.target an = targ"
    "PairAnalysis.ins_cost an = ins_costs" "PairAnalysis.del_cost an = del_costs"
    "PairAnalysis.sub_cost an = sub_costs"
    by (simp_all add: an_def)
  have len: "i' < length (PairAnalysis.target an)" "j' < length (PairAnalysis.source an)"
    using assms ij by (simp_all add: sel)
  from filled_body_cell [OF len, of m] obtain c up diag left where
    "filled an m (Suc i', Suc j') = Some c" "filled an m (i', Suc j') = Some up"
    "filled an m (i', j') = Some diag" "filled an m (Suc i', j') = Some left"
    "cumulative_cost c =
       min (cumulative_cost up + ins_costs (targ ! i'))
           (min (cumulative_cost diag + sub_costs (src ! j') (targ ! i'))
                (cumulative_cost left + del_costs (src ! j')))"
    "Cell.operation c =
       (if cumulative_cost diag + sub_costs (src ! j') (targ ! i') = cumulative_cost c
        then SUB
        else if cumulative_cost left + del_costs (src ! j') = cumulative_cost c then DEL
        else INS)"
    unfolding sel by blast
  then show "\<exists>an m' c up diag left.
     levenshtein is_mark str_s str_t src targ ins_costs del_costs sub_costs m = Inr (an, m') \<and>
     m' (i, j) = Some c \<and> m' (i - 1, j) = Some up \<and>
     m' (i - 1, j - 1) = Some diag \<and> m' (i, j - 1) = Some left \<and>
     cumulative_cost c =
       min (cumulative_cost up + ins_costs (targ ! (i - 1)))
           (min (cumulative_cost diag + sub_costs (src ! (j - 1)) (targ ! (i - 1)))
                (cumulative_cost left + del_costs (src ! (j - 1)))) \<and>
     Cell.operation c =
       (if cumulative_cost diag + sub_costs (src ! (j - 1)) (targ ! (i - 1)) = cumulative_cost c
        then SUB
        else if cumulative_cost left + del_costs (src ! (j - 1)) = cumulative_cost c then DEL
        else INS)"
    unfolding ij using run
    apply (intro exI [of _ an])
    apply (intro exI [of _ "filled an m"])
    apply (rule exI [of _ c])
    apply (rule exI [of _ up])
    apply (rule exI [of _ diag])
    apply (rule exI [of _ left])
    apply (simp only: diff_Suc_1 simp_thms)
    done
next
  obtain i' j' where ij: "i = Suc i'" "j = Suc j'"
    using assms(2,4) by (cases i; cases j) auto
  obtain v self' where run: "set_pair is_mark str_s str_t self src targ = Inr (v, self')"
    and sel: "sequence1 self' = src" "sequence2 self' = targ"
      "Levenshtein.ins_cost self' = Levenshtein.ins_cost self"
      "Levenshtein.del_cost self' = Levenshtein.del_cost self"
      "Levenshtein.sub_cost self' = Levenshtein.sub_cost self"
    and d: "distance self' = Some (as_distance (filled (as_analysis self') initial_matrix))"
    using set_pair_result [of is_mark str_s str_t self src targ] by blast
  let ?an = "as_analysis self'"
  have len: "i' < length (PairAnalysis.target ?an)" "j' < length (PairAnalysis.source ?an)"
    using assms ij by (simp_all add: sel)
  from filled_body_cell [OF len, of initial_matrix] obtain c up diag left where cells:
    "filled ?an initial_matrix (Suc i', Suc j') = Some c"
    "filled ?an initial_matrix (i', Suc j') = Some up"
    "filled ?an initial_matrix (i', j') = Some diag"
    "filled ?an initial_matrix (Suc i', j') = Some left"
    and cost: "cumulative_cost c =
       min (cumulative_cost up + Levenshtein.ins_cost self (targ ! i'))
           (min (cumulative_cost diag + Levenshtein.sub_cost self (src ! j') (targ ! i'))
                (cumulative_cost left + Levenshtein.del_cost self (src ! j')))"
    and tag: "Cell.operation c =
       (if cumulative_cost diag + Levenshtein.sub_cost self (src ! j') (targ ! i')
             = cumulative_cost c
        then SUB
        else if cumulative_cost left + Levenshtein.del_cost self (src ! j') = cumulative_cost c
        then DEL
        else INS)"
    unfolding as_analysis_simps sel by blast
  let ?d = "as_distance (filled ?an initial_matrix)"
  have "?d (Suc i', Suc j') = Some (as_lev_cell c)" "?d (i', Suc j') = Some (as_lev_cell up)"
    "?d (i', j') = Some (as_lev_cell diag)" "?d (Suc i', j') = Some (as_lev_cell left)"
    using cells by (simp_all add: as_distance_Some)
  moreover have "num (as_lev_cell c) =
       min (num (as_lev_cell up) + Levenshtein.ins_cost self (targ ! i'))
           (min (num (as_lev_cell diag) + Levenshtein.sub_cost self (src ! j') (targ ! i'))
                (num (as_lev_cell left) + Levenshtein.del_cost self (src ! j')))"
    using cost by simp
  moreover have "LevCell.operation (as_lev_cell c) =
       (if num (as_lev_cell diag) + Levenshtein.sub_cost self (src ! j') (targ ! i')
             = num (as_lev_cell c)
        then SUBSTITUTE
        else if num (as_lev_cell left) + Levenshtein.del_cost self (src ! j')
             = num (as_lev_cell c)
        then DELETE
        else INSERT)"
    using tag by simp
  ultimately show "\<exists>v self' d c up diag left.
     set_pair is_mark str_s str_t self src targ = Inr (v, self') \<and> distance self' = Some d \<and>
     d (i, j) = Some c \<and> d (i - 1, j) = Some up \<and>
     d (i - 1, j - 1) = Some diag \<and> d (i, j - 1) = Some left \<and>
     num c =
       min (num up + Levenshtein.ins_cost self (targ ! (i - 1)))
           (min (num diag + Levenshtein.sub_cost self (src ! (j - 1)) (targ ! (i - 1)))
                (num left + Levenshtein.del_cost self (src ! (j - 1)))) \<and>
     LevCell.operation c =
       (if num diag + Levenshtein.sub_cost self (src ! (j - 1)) (targ ! (i - 1)) = num c
        then SUBSTITUTE
        else if num left + Levenshtein.del_cost self (src ! (j - 1)) = num c then DELETE
        else INSERT)"
    unfolding ij using run d
    apply (intro exI [of _ v])
    apply (intro exI [of _ self'])
    apply (rule exI [of _ ?d])
    apply (rule exI [of _ "as_lev_cell c"])
    apply (rule exI [of _ "as_lev_cell up"])
    apply (rule exI [of _ "as_lev_cell diag"])
    apply (rule exI [of _ "as_lev_cell left"])
    apply (simp only: diff_Suc_1 simp_thms)
    done
qed

theorem C2_body_recurrence_witness:
  "origin_ok (initial_matrix :: int DistanceMatrix) \<and> (1::nat) \<le> 2 \<and> 2 \<le> length ''doge'' \<and>
   (1::nat) \<le> 3 \<and> 3 \<le> length ''dag'' \<and>
   (\<exists>an m' c up diag left.
     levenshtein (\<lambda>c. False) (\<lambda>c. [of_char c]) (\<lambda>c. [of_char c]) ''dag'' ''doge''
       lev_ins_function lev_del_function lev_sub_function (initial_matrix :: int DistanceMatrix)
       = Inr (an, m') \<and>
     m' (2, 3) = Some c \<and> m' (2 - 1, 3) = Some up \<and>
     m' (2 - 1, 3 - 1) = Some diag \<and> m' (2, 3 - 1) = Some left \<and>
     cumulative_cost c =
       min (cumulative_cost up + lev_ins_function (''doge'' ! (2 - 1)))
           (min (cumulative_cost diag + lev_sub_function (''dag'' ! (3 - 1)) (''doge'' ! (2 - 1)))
                (cumulative_cost left + lev_del_function (''dag'' ! (3 - 1)))) \<and>
     Cell.operation c =
       (if cumulative_cost diag + lev_sub_function (''dag'' ! (3 - 1)) (''doge'' ! (2 - 1))
           = cumulative_cost c
        then SUB
        else if cumulative_cost left + lev_del_function (''dag'' ! (3 - 1)) = cumulative_cost c
        then DEL
        else INS)) \<and>
   (\<exists>v self' d c up diag left.
     set_pair (\<lambda>c. False) (\<lambda>c. [of_char c]) (\<lambda>c. [of_char c])
       (init_Levenshtein lev_ins_function lev_del_function lev_sub_function
          :: (char, char, int) Levenshtein) ''dag'' ''doge'' = Inr (v, self') \<and>
     distance self' = Some d \<and>
     d (2, 3) = Some c \<and> d (2 - 1, 3) = Some up \<and>
     d (2 - 1, 3 - 1) = Some diag \<and> d (2, 3 - 1) = Some left \<and>
     num c =
       min (num up + Levenshtein.ins_cost
              (init_Levenshtein lev_ins_function lev_del_function lev_sub_function
                 :: (char, char, int) Levenshtein) (''doge'' ! (2 - 1)))
           (min (num diag + Levenshtein.sub_cost
                   (init_Levenshtein lev_ins_function lev_del_function lev_sub_function
                      :: (char, char, int) Levenshtein) (''dag'' ! (3 - 1)) (''doge'' ! (2 - 1)))
                (num left + Levenshtein.del_cost
                   (init_Levenshtein lev_ins_function lev_del_function lev_sub_function
                      :: (char, char, int) Levenshtein) (''dag'' ! (3 - 1)))) \<and>
     LevCell.operation c =
       (if num diag + Levenshtein.sub_cost
             (init_Levenshtein lev_ins_function lev_del_function lev_sub_function
                :: (char, char, int) Levenshtein) (''dag'' ! (3 - 1)) (''doge'' ! (2 - 1)) = num c
        then SUBSTITUTE
        else if num left + Levenshtein.del_cost
                  (init_Levenshtein lev_ins_function lev_del_function lev_sub_function
                     :: (char, char, int) Levenshtein) (''dag'' ! (3 - 1)) = num c
        then DELETE
        else INSERT))"
proof -
  have h: "origin_ok (initial_matrix :: int DistanceMatrix)" by (rule origin_ok_initial)
  have r: "(1::nat) \<le> 2" "2 \<le> length ''doge''" "(1::nat) \<le> 3" "3 \<le> length ''dag''"
    by simp_all
  note c2 = C2_body_recurrence [OF h r, of "\<lambda>c. False" "\<lambda>c. [of_char c]" "\<lambda>c. [of_char c]"
      lev_ins_function lev_del_function lev_sub_function
      "init_Levenshtein lev_ins_function lev_del_function lev_sub_function
         :: (char, char, int) Levenshtein"]
  show ?thesis
    by (intro c2 conjI h r)
qed

text \<open>
  Claim C1 is what the code does wherever \<open>chart.levenshtein\<close> returns
  (\<open>engine_agreement_nonempty\<close>), and the class \<open>Levenshtein\<close> agrees with the enumerator on
  every input (\<open>set_pair_suffix_cost\<close>). \<open>chart.levenshtein\<close> breaks it when a sequence is
  empty. For the empty source and the target \<open>a\<close> under the default costs: the enumerator
  returns one parse, of cost 1; \<open>Levenshtein.set_pair\<close> returns the distance 1;
  \<open>chart.levenshtein\<close> raises ValueError, because \<open>greatest_width\<close> takes \<open>max\<close> of no
  widths, and so gives no distance.
\<close>

theorem C1_empty_source:
  "relate_arguments [] ''a'' (default_costs :: (char, char, int) CostFunctions) False =
     Inr [[\<lparr>xCell.source = None, target = Some CHR ''a'', this_cost = 1, cumul_cost = 1\<rparr>]] \<and>
   parse_cost [\<lparr>xCell.source = (None :: char option), target = Some CHR ''a'',
                this_cost = (1 :: int), cumul_cost = 1\<rparr>] = Inr 1 \<and>
   map_sum (\<lambda>e. e) fst
     (set_pair (\<lambda>c. False) (\<lambda>c. [of_char c]) (\<lambda>c. [of_char c])
        (init_Levenshtein (insert_fn (default_costs :: (char, char, int) CostFunctions))
           (delete_fn (default_costs :: (char, char, int) CostFunctions))
           (substitute_fn (default_costs :: (char, char, int) CostFunctions))) [] ''a'') = Inr 1 \<and>
   greatest_width (\<lambda>c. False) (\<lambda>c. [of_char c]) ([] :: char list) = Inl ValueError \<and>
   levenshtein (\<lambda>c. False) (\<lambda>c. [of_char c]) (\<lambda>c. [of_char c]) [] ''a''
     (insert_fn (default_costs :: (char, char, int) CostFunctions)) (delete_fn (default_costs :: (char, char, int) CostFunctions))
     (substitute_fn (default_costs :: (char, char, int) CostFunctions)) (initial_matrix :: int DistanceMatrix) = Inl ValueError"
  by (simp add: xducer_eval chart_eval lev_eval)

text \<open>
  Claim C5. The enumerator applied to two empty sequences returns no parse at all (the
  empty list, not a list holding one empty parse), for every cost model and either
  value of \<open>just_one\<close>; applied to the source \<open>cat\<close> and the empty target under the default
  costs it returns exactly one parse, of three steps that each align a source element
  with nothing (deletions) at cost 1, and the cost of the parse is 3.
\<close>

theorem C5_boundary:
  "relate_arguments [] [] cf one = Inr [] \<and>
   relate_arguments ''cat'' [] (default_costs :: (char, char, int) CostFunctions) False =
     Inr [[\<lparr>xCell.source = Some CHR ''c'', target = None, this_cost = 1, cumul_cost = 3\<rparr>,
           \<lparr>xCell.source = Some CHR ''a'', target = None, this_cost = 1, cumul_cost = 2\<rparr>,
           \<lparr>xCell.source = Some CHR ''t'', target = None, this_cost = 1, cumul_cost = 1\<rparr>]] \<and>
   parse_cost [\<lparr>xCell.source = Some CHR ''c'', target = None, this_cost = 1, cumul_cost = 3\<rparr>,
           \<lparr>xCell.source = Some CHR ''a'', target = None, this_cost = 1, cumul_cost = 2\<rparr>,
           \<lparr>xCell.source = Some CHR ''t'', target = None, this_cost = 1, cumul_cost = (1::int)\<rparr>]
     = Inr 3"
  by (simp add: xducer_eval)

text \<open>
  Claim C6, as amended. On the empty source and the empty target the enumerator yields
  no parse. For every non-empty target with the empty source it yields exactly one
  parse: one step per target element, in order, each with the source absent and the
  cost of inserting that element. For every non-empty source with the empty target it
  yields exactly one parse: one step per source element, in order, each with the target
  absent and the cost of deleting that element.
\<close>

theorem C6_edge_cases:
  "relate_arguments [] [] cf one = Inr [] \<and>
   (targ \<noteq> [] \<longrightarrow>
      (\<exists>p. relate_arguments [] targ cf one = Inr [p] \<and>
           map xCell.source p = replicate (length targ) None \<and>
           map xCell.target p = map Some targ \<and>
           map xCell.this_cost p = map (insert_fn cf) targ)) \<and>
   (src \<noteq> [] \<longrightarrow>
      (\<exists>p. relate_arguments src [] cf one = Inr [p] \<and>
           map xCell.source p = map Some src \<and>
           map xCell.target p = replicate (length src) None \<and>
           map xCell.this_cost p = map (delete_fn cf) src))"
  using suffix_parses_inserts [of targ cf one] suffix_parses_deletes [of src cf one]
  by (simp add: relate_arguments_eq)

theorem C6_edge_cases_witness:
  "relate_arguments [] [] (default_costs :: (char, char, int) CostFunctions) False = Inr [] \<and>
   ''ab'' \<noteq> [] \<and>
   (\<exists>p. relate_arguments [] ''ab'' (default_costs :: (char, char, int) CostFunctions) False
          = Inr [p] \<and>
        map xCell.source p = replicate (length ''ab'') None \<and>
        map xCell.target p = map Some ''ab'' \<and>
        map xCell.this_cost p = map (insert_fn default_costs) ''ab'') \<and>
   ''cat'' \<noteq> [] \<and>
   (\<exists>p. relate_arguments ''cat'' [] (default_costs :: (char, char, int) CostFunctions) False
          = Inr [p] \<and>
        map xCell.source p = map Some ''cat'' \<and>
        map xCell.target p = replicate (length ''cat'') None \<and>
        map xCell.this_cost p = map (delete_fn default_costs) ''cat'')"
  using C6_edge_cases [of "default_costs :: (char, char, int) CostFunctions" False "''ab''" "''cat''"]
  by simp

text \<open>
  Claim C6 as stated fails on two empty sequences: the result is the empty list of
  parses, not a list holding one empty parse.
\<close>

theorem C6_counterexample:
  "relate_arguments ([] :: char list) ([] :: char list)
     (default_costs :: (char, char, int) CostFunctions) False \<noteq> Inr [[]]"
  by (simp add: xducer_eval)

text \<open>
  Claim C7, as amended. For every source and target that are not both empty and every
  cost model with integer costs, the enumerator called with \<open>just_one\<close> set returns
  exactly one parse \<open>p\<close>. Its cost \<open>d\<close> is the least cost of the candidates that \<open>try_op\<close>
  produces at the origin for the branches that \<open>parse\<close> takes there (SUB when neither
  sequence is empty, then DEL when the source is not empty, then INS when the target is
  not empty), and \<open>p\<close> is the first candidate of that cost. No alignment of the two
  sequences costs less than \<open>d\<close>, and whenever \<open>chart.levenshtein\<close> returns an analysis of
  the same input, \<open>chart.min_edit_distance\<close> of it is \<open>d\<close>.
\<close>

theorem C7_just_one:
  fixes cf :: "('a, 'b, int) CostFunctions"
  shows "\<not> (src = [] \<and> targ = []) \<longrightarrow>
    (\<exists>p d A B C pre post.
       relate_arguments src targ cf True = Inr [p] \<and> parse_cost p = Inr d \<and>
       (if src \<noteq> [] \<and> targ \<noteq> []
        then \<exists>mem. try_op (fst (arguments src targ cf True)) (0, 0) xSUB Map.empty = Inr (A, mem)
        else A = []) \<and>
       (if src \<noteq> []
        then \<exists>mem. try_op (fst (arguments src targ cf True)) (0, 0) xDEL Map.empty = Inr (B, mem)
        else B = []) \<and>
       (if targ \<noteq> []
        then \<exists>mem. try_op (fst (arguments src targ cf True)) (0, 0) xINS Map.empty = Inr (C, mem)
        else C = []) \<and>
       A @ B @ C = pre @ p # post \<and>
       (\<forall>q \<in> set pre. parse_cost q \<noteq> Inr d) \<and>
       (\<forall>q \<in> set (A @ B @ C). \<exists>e. parse_cost q = Inr e \<and> d \<le> e) \<and>
       (\<forall>a. is_alignment a src targ \<longrightarrow>
            d \<le> alignment_cost (insert_fn cf) (delete_fn cf) (substitute_fn cf) a) \<and>
       (\<forall>m an m'.
          origin_ok m \<and>
          levenshtein is_mark str_s str_t src targ
            (insert_fn cf) (delete_fn cf) (substitute_fn cf) m = Inr (an, m') \<longrightarrow>
          min_edit_distance an m' = Inr d))"
proof
  assume ne: "\<not> (src = [] \<and> targ = [])"
  let ?d = "suffix_cost cf src targ"
  have lower: "\<forall>a. is_alignment a src targ \<longrightarrow>
            ?d \<le> alignment_cost (insert_fn cf) (delete_fn cf) (substitute_fn cf) a"
    using suffix_cost_lower_bound [of _ src targ cf] by blast
  have chart: "\<forall>m an m'.
          origin_ok m \<and>
          levenshtein is_mark str_s str_t src targ
            (insert_fn cf) (delete_fn cf) (substitute_fn cf) m = Inr (an, m') \<longrightarrow>
          min_edit_distance an m' = Inr ?d"
    using chart_distance_suffix_cost [of _ is_mark str_s str_t src targ cf] by blast
  from just_one_first_minimal [OF ne, of cf] obtain p A B C pre post where
    "relate_arguments src targ cf True = Inr [p]" "parse_cost p = Inr ?d"
    "if src \<noteq> [] \<and> targ \<noteq> []
     then \<exists>mem. try_op (fst (arguments src targ cf True)) (0, 0) xSUB Map.empty = Inr (A, mem)
     else A = []"
    "if src \<noteq> []
     then \<exists>mem. try_op (fst (arguments src targ cf True)) (0, 0) xDEL Map.empty = Inr (B, mem)
     else B = []"
    "if targ \<noteq> []
     then \<exists>mem. try_op (fst (arguments src targ cf True)) (0, 0) xINS Map.empty = Inr (C, mem)
     else C = []"
    "A @ B @ C = pre @ p # post"
    "\<forall>q \<in> set pre. parse_cost q \<noteq> Inr ?d"
    "\<forall>q \<in> set (A @ B @ C). \<exists>e. parse_cost q = Inr e \<and> ?d \<le> e"
    by blast
  then show "\<exists>p d A B C pre post.
       relate_arguments src targ cf True = Inr [p] \<and> parse_cost p = Inr d \<and>
       (if src \<noteq> [] \<and> targ \<noteq> []
        then \<exists>mem. try_op (fst (arguments src targ cf True)) (0, 0) xSUB Map.empty = Inr (A, mem)
        else A = []) \<and>
       (if src \<noteq> []
        then \<exists>mem. try_op (fst (arguments src targ cf True)) (0, 0) xDEL Map.empty = Inr (B, mem)
        else B = []) \<and>
       (if targ \<noteq> []
        then \<exists>mem. try_op (fst (arguments src targ cf True)) (0, 0) xINS Map.empty = Inr (C, mem)
        else C = []) \<and>
       A @ B @ C = pre @ p # post \<and>
       (\<forall>q \<in> set pre. parse_cost q \<noteq> Inr d) \<and>
       (\<forall>q \<in> set (A @ B @ C). \<exists>e. parse_cost q = Inr e \<and> d \<le> e) \<and>
       (\<forall>a. is_alignment a src targ \<longrightarrow>
            d \<le> alignment_cost (insert_fn cf) (delete_fn cf) (substitute_fn cf) a) \<and>
       (\<forall>m an m'.
          origin_ok m \<and>
          levenshtein is_mark str_s str_t src targ
            (insert_fn cf) (delete_fn cf) (substitute_fn cf) m = Inr (an, m') \<longrightarrow>
          min_edit_distance an m' = Inr d)"
    using lower chart
    apply (intro exI [of _ p])
    apply (rule exI [of _ ?d])
    apply (rule exI [of _ A])
    apply (rule exI [of _ B])
    apply (rule exI [of _ C])
    apply (rule exI [of _ pre])
    apply (rule exI [of _ post])
    apply (intro conjI)
    apply assumption+
    done
qed

theorem C7_just_one_witness:
  "\<not> (''dag'' = [] \<and> ''doge'' = []) \<and>
   origin_ok (initial_matrix :: int DistanceMatrix) \<and>
   (\<exists>p d A B C pre post an m'.
       relate_arguments ''dag'' ''doge'' (default_costs :: (char, char, int) CostFunctions) True = Inr [p] \<and> parse_cost p = Inr d \<and>
       (if ''dag'' \<noteq> [] \<and> ''doge'' \<noteq> []
        then \<exists>mem. try_op (fst (arguments ''dag'' ''doge'' (default_costs :: (char, char, int) CostFunctions) True)) (0, 0) xSUB Map.empty = Inr (A, mem)
        else A = []) \<and>
       (if ''dag'' \<noteq> []
        then \<exists>mem. try_op (fst (arguments ''dag'' ''doge'' (default_costs :: (char, char, int) CostFunctions) True)) (0, 0) xDEL Map.empty = Inr (B, mem)
        else B = []) \<and>
       (if ''doge'' \<noteq> []
        then \<exists>mem. try_op (fst (arguments ''dag'' ''doge'' (default_costs :: (char, char, int) CostFunctions) True)) (0, 0) xINS Map.empty = Inr (C, mem)
        else C = []) \<and>
       A @ B @ C = pre @ p # post \<and>
       (\<forall>q \<in> set pre. parse_cost q \<noteq> Inr d) \<and>
       (\<forall>q \<in> set (A @ B @ C). \<exists>e. parse_cost q = Inr e \<and> d \<le> e) \<and>
       (\<forall>a. is_alignment a ''dag'' ''doge'' \<longrightarrow>
            d \<le> alignment_cost (insert_fn (default_costs :: (char, char, int) CostFunctions)) (delete_fn (default_costs :: (char, char, int) CostFunctions)) (substitute_fn (default_costs :: (char, char, int) CostFunctions)) a) \<and>
       levenshtein (\<lambda>c. False) (\<lambda>c. [of_char c]) (\<lambda>c. [of_char c]) ''dag'' ''doge''
         (insert_fn (default_costs :: (char, char, int) CostFunctions)) (delete_fn (default_costs :: (char, char, int) CostFunctions)) (substitute_fn (default_costs :: (char, char, int) CostFunctions))
         (initial_matrix :: int DistanceMatrix) = Inr (an, m') \<and>
       min_edit_distance an m' = Inr d)"
proof -
  have n: "\<not> (''dag'' = [] \<and> ''doge'' = [])" by simp
  have h: "origin_ok (initial_matrix :: int DistanceMatrix)" by (rule origin_ok_initial)
  obtain an where an: "levenshtein (\<lambda>c. False) (\<lambda>c. [of_char c]) (\<lambda>c. [of_char c]) ''dag'' ''doge''
         (insert_fn (default_costs :: (char, char, int) CostFunctions)) (delete_fn (default_costs :: (char, char, int) CostFunctions))
         (substitute_fn (default_costs :: (char, char, int) CostFunctions))
         (initial_matrix :: int DistanceMatrix) = Inr (an, filled an initial_matrix)"
    using levenshtein_nonempty [OF h, of "''dag''" "''doge''" "\<lambda>c. False" "\<lambda>c. [of_char c]"
        "\<lambda>c. [of_char c]" "insert_fn (default_costs :: (char, char, int) CostFunctions)"
        "delete_fn (default_costs :: (char, char, int) CostFunctions)" "substitute_fn (default_costs :: (char, char, int) CostFunctions)"]
    by auto
  note c7 = C7_just_one [where src = "''dag''" and targ = "''doge''"
      and cf = "default_costs :: (char, char, int) CostFunctions"
      and is_mark = "\<lambda>c. False" and str_s = "\<lambda>c. [of_char c]" and str_t = "\<lambda>c. [of_char c]"]
  from c7 n obtain p d A B C pre post where f:
       "relate_arguments ''dag'' ''doge'' (default_costs :: (char, char, int) CostFunctions) True = Inr [p] \<and> parse_cost p = Inr d \<and>
       (if ''dag'' \<noteq> [] \<and> ''doge'' \<noteq> []
        then \<exists>mem. try_op (fst (arguments ''dag'' ''doge'' (default_costs :: (char, char, int) CostFunctions) True)) (0, 0) xSUB Map.empty = Inr (A, mem)
        else A = []) \<and>
       (if ''dag'' \<noteq> []
        then \<exists>mem. try_op (fst (arguments ''dag'' ''doge'' (default_costs :: (char, char, int) CostFunctions) True)) (0, 0) xDEL Map.empty = Inr (B, mem)
        else B = []) \<and>
       (if ''doge'' \<noteq> []
        then \<exists>mem. try_op (fst (arguments ''dag'' ''doge'' (default_costs :: (char, char, int) CostFunctions) True)) (0, 0) xINS Map.empty = Inr (C, mem)
        else C = []) \<and>
       A @ B @ C = pre @ p # post \<and>
       (\<forall>q \<in> set pre. parse_cost q \<noteq> Inr d) \<and>
       (\<forall>q \<in> set (A @ B @ C). \<exists>e. parse_cost q = Inr e \<and> d \<le> e) \<and>
       (\<forall>a. is_alignment a ''dag'' ''doge'' \<longrightarrow>
            d \<le> alignment_cost (insert_fn (default_costs :: (char, char, int) CostFunctions)) (delete_fn (default_costs :: (char, char, int) CostFunctions)) (substitute_fn (default_costs :: (char, char, int) CostFunctions)) a) \<and>
       (\<forall>m an m'.
          origin_ok m \<and>
          levenshtein (\<lambda>c. False) (\<lambda>c. [of_char c]) (\<lambda>c. [of_char c]) ''dag'' ''doge''
            (insert_fn (default_costs :: (char, char, int) CostFunctions)) (delete_fn (default_costs :: (char, char, int) CostFunctions)) (substitute_fn (default_costs :: (char, char, int) CostFunctions)) m = Inr (an, m') \<longrightarrow>
          min_edit_distance an m' = Inr d)"
    by blast
  then have "min_edit_distance an (filled an initial_matrix) = Inr d"
    using h an by blast
  then show ?thesis
    using n h an f by blast
qed

text \<open>
  Claim C7 as stated fails on two empty sequences: with \<open>just_one\<close> set the enumerator
  returns no parse at all, where the claim says exactly one.
\<close>

theorem C7_counterexample:
  "relate_arguments ([] :: char list) ([] :: char list)
     (default_costs :: (char, char, int) CostFunctions) True = Inr []"
  by (simp add: xducer_eval)

text \<open>
  Claim C4, as amended. For every non-empty source and target, the backtrace that
  \<open>chart.get_one_backtrace\<close> reads from the matrix as \<open>chart.levenshtein\<close> left it is not
  empty, and the cumulative cost of the cell of its last step is the sum of the
  incremental costs of all its steps. For every parse that the enumerator returns, it
  is the cumulative cost of the first step, the value of \<open>parse_cost\<close>, that is the sum
  of the incremental costs of all steps; the cumulative cost of the last step is that
  step's own incremental cost. For every source and target, \<open>Levenshtein.set_pair\<close>
  succeeds, \<open>alignment_facts\<close> then returns a list of units, and when that list is not
  empty the cumulative cost of its last unit is the sum, over all units, of the cost of
  the operation of the unit.
\<close>

theorem C4_cumulative_cost:
  "(origin_ok m \<and> src \<noteq> [] \<and> targ \<noteq> [] \<longrightarrow>
      (\<exists>an m' bt.
         levenshtein is_mark str_s str_t src targ ins_costs del_costs sub_costs m = Inr (an, m') \<and>
         get_one_backtrace an m' = Inr bt \<and> bt \<noteq> [] \<and>
         cumulative_cost (cell (last bt)) = sum_list (map (\<lambda>st. Cell.this_cost (cell st)) bt))) \<and>
   (\<exists>parses.
      relate_arguments src targ cf one = Inr parses \<and>
      (\<forall>p \<in> set parses.
         p \<noteq> [] \<and> parse_cost p = Inr (sum_list (map xCell.this_cost p)) \<and>
         cumul_cost (hd p) = sum_list (map xCell.this_cost p) \<and>
         cumul_cost (last p) = xCell.this_cost (last p))) \<and>
   (\<exists>v self' units.
      set_pair is_mark str_s str_t self src targ = Inr (v, self') \<and>
      alignment_facts self' = Inr units \<and>
      (units \<noteq> [] \<longrightarrow>
         snd (snd (last units)) =
           sum_list (map (\<lambda>u. step_cost (Levenshtein.ins_cost self) (Levenshtein.del_cost self)
                                (Levenshtein.sub_cost self) (fst u, fst (snd u))) units)))"
proof (intro conjI impI)
  assume h: "origin_ok m \<and> src \<noteq> [] \<and> targ \<noteq> []"
  then obtain an where an: "levenshtein is_mark str_s str_t src targ
       ins_costs del_costs sub_costs m = Inr (an, filled an m)"
    "PairAnalysis.source an = src" "PairAnalysis.target an = targ"
    using levenshtein_nonempty [of m src targ is_mark str_s str_t ins_costs del_costs sub_costs]
    by blast
  obtain bt where bt: "get_one_backtrace an (filled an m) = Inr bt"
    "trace_ok an bt (length (PairAnalysis.target an)) (length (PairAnalysis.source an))"
    using get_one_backtrace_filled [of an m] by blast
  have ne: "bt \<noteq> []"
    using trace_ok_nonempty [OF bt(2)] h an(2) by simp
  have "cumulative_cost (cell (last bt)) = sum_list (map (\<lambda>st. Cell.this_cost (cell st)) bt)"
    using bt(2) ne by (simp add: trace_ok_def)
  then show "\<exists>an m' bt.
         levenshtein is_mark str_s str_t src targ ins_costs del_costs sub_costs m = Inr (an, m') \<and>
         get_one_backtrace an m' = Inr bt \<and> bt \<noteq> [] \<and>
         cumulative_cost (cell (last bt)) = sum_list (map (\<lambda>st. Cell.this_cost (cell st)) bt)"
    using an(1) bt(1) ne by blast
next
  have "\<forall>p \<in> set (suffix_parses cf one src targ).
         p \<noteq> [] \<and> parse_cost p = Inr (sum_list (map xCell.this_cost p)) \<and>
         cumul_cost (hd p) = sum_list (map xCell.this_cost p) \<and>
         cumul_cost (last p) = xCell.this_cost (last p)"
  proof
    fix p assume "p \<in> set (suffix_parses cf one src targ)"
    then have ok: "parse_ok cf p src targ"
      using suffix_parses_props [of cf one src targ] by blast
    then have ne: "p \<noteq> []" and c: "cumul_ok p" by (simp_all add: parse_ok_def)
    have "path_cost p = cumul_cost (hd p)" using ne by (cases p) simp_all
    then show "p \<noteq> [] \<and> parse_cost p = Inr (sum_list (map xCell.this_cost p)) \<and>
         cumul_cost (hd p) = sum_list (map xCell.this_cost p) \<and>
         cumul_cost (last p) = xCell.this_cost (last p)"
      using ne cumul_ok_sum [OF c] cumul_ok_last [OF c ne]
      by (simp add: parse_cost_path_cost)
  qed
  then show "\<exists>parses.
      relate_arguments src targ cf one = Inr parses \<and>
      (\<forall>p \<in> set parses.
         p \<noteq> [] \<and> parse_cost p = Inr (sum_list (map xCell.this_cost p)) \<and>
         cumul_cost (hd p) = sum_list (map xCell.this_cost p) \<and>
         cumul_cost (last p) = xCell.this_cost (last p))"
    using relate_arguments_eq [of src targ cf one] by blast
next
  obtain v self' where run: "set_pair is_mark str_s str_t self src targ = Inr (v, self')"
    and sel: "Levenshtein.ins_cost self' = Levenshtein.ins_cost self"
      "Levenshtein.del_cost self' = Levenshtein.del_cost self"
      "Levenshtein.sub_cost self' = Levenshtein.sub_cost self"
    and d: "distance self' = Some (as_distance (filled (as_analysis self') initial_matrix))"
    using set_pair_result [of is_mark str_s str_t self src targ] by blast
  obtain bt where bt: "alignment_facts self' = Inr (map as_unit bt)"
    "trace_ok (as_analysis self') bt (length (sequence2 self')) (length (sequence1 self'))"
    using alignment_facts_filled [OF d] by blast
  have "map as_unit bt \<noteq> [] \<longrightarrow>
         snd (snd (last (map as_unit bt))) =
           sum_list (map (\<lambda>u. step_cost (Levenshtein.ins_cost self) (Levenshtein.del_cost self)
                                (Levenshtein.sub_cost self) (fst u, fst (snd u)))
                       (map as_unit bt))"
  proof
    assume "map as_unit bt \<noteq> []"
    then have "bt \<noteq> []" by simp
    from trace_ok_units [OF bt(2) this] show "snd (snd (last (map as_unit bt))) =
           sum_list (map (\<lambda>u. step_cost (Levenshtein.ins_cost self) (Levenshtein.del_cost self)
                                (Levenshtein.sub_cost self) (fst u, fst (snd u)))
                       (map as_unit bt))"
      by (simp only: as_analysis_simps sel)
  qed
  then show "\<exists>v self' units.
      set_pair is_mark str_s str_t self src targ = Inr (v, self') \<and>
      alignment_facts self' = Inr units \<and>
      (units \<noteq> [] \<longrightarrow>
         snd (snd (last units)) =
           sum_list (map (\<lambda>u. step_cost (Levenshtein.ins_cost self) (Levenshtein.del_cost self)
                                (Levenshtein.sub_cost self) (fst u, fst (snd u))) units))"
    using run bt(1) by blast
qed

theorem C4_cumulative_cost_witness:
  "(origin_ok (initial_matrix :: int DistanceMatrix) \<and> ''dag'' \<noteq> [] \<and> ''doge'' \<noteq> []) \<and>
   (\<exists>an m' bt.
      levenshtein (\<lambda>c. False) (\<lambda>c. [of_char c]) (\<lambda>c. [of_char c]) ''dag'' ''doge''
        lev_ins_function lev_del_function lev_sub_function
        (initial_matrix :: int DistanceMatrix) = Inr (an, m') \<and>
      get_one_backtrace an m' = Inr bt \<and> bt \<noteq> [] \<and>
      cumulative_cost (cell (last bt)) = sum_list (map (\<lambda>st. Cell.this_cost (cell st)) bt)) \<and>
   (\<exists>parses.
      relate_arguments ''dag'' ''doge'' (default_costs :: (char, char, int) CostFunctions) False
        = Inr parses \<and>
      (\<forall>p \<in> set parses.
         p \<noteq> [] \<and> parse_cost p = Inr (sum_list (map xCell.this_cost p)) \<and>
         cumul_cost (hd p) = sum_list (map xCell.this_cost p) \<and>
         cumul_cost (last p) = xCell.this_cost (last p))) \<and>
   (\<exists>v self' units.
      set_pair (\<lambda>c. False) (\<lambda>c. [of_char c]) (\<lambda>c. [of_char c])
        (init_Levenshtein lev_ins_function lev_del_function lev_sub_function
           :: (char, char, int) Levenshtein) ''dag'' ''doge'' = Inr (v, self') \<and>
      alignment_facts self' = Inr units \<and>
      (units \<noteq> [] \<longrightarrow>
         snd (snd (last units)) =
           sum_list (map (\<lambda>u. step_cost
               (Levenshtein.ins_cost (init_Levenshtein lev_ins_function lev_del_function
                  lev_sub_function :: (char, char, int) Levenshtein))
               (Levenshtein.del_cost (init_Levenshtein lev_ins_function lev_del_function
                  lev_sub_function :: (char, char, int) Levenshtein))
               (Levenshtein.sub_cost (init_Levenshtein lev_ins_function lev_del_function
                  lev_sub_function :: (char, char, int) Levenshtein))
               (fst u, fst (snd u))) units)))"
proof -
  have h: "origin_ok (initial_matrix :: int DistanceMatrix) \<and> ''dag'' \<noteq> [] \<and> ''doge'' \<noteq> []"
    by (simp add: origin_ok_initial)
  note c4 = C4_cumulative_cost [of "initial_matrix :: int DistanceMatrix" "''dag''" "''doge''"
      "\<lambda>c. False" "\<lambda>c. [of_char c]" "\<lambda>c. [of_char c]"
      lev_ins_function lev_del_function lev_sub_function
      "default_costs :: (char, char, int) CostFunctions" False
      "init_Levenshtein lev_ins_function lev_del_function lev_sub_function
         :: (char, char, int) Levenshtein"]
  show ?thesis
    using h c4 by blast
qed

text \<open>
  Claim C4 as stated fails for the enumerator: in its one parse of \<open>cat\<close> against the
  empty target the last step has cumulative cost 1, while the incremental costs add up
  to 3 (the cumulative cost of the first step).
\<close>

theorem C4_counterexample:
  "relate_arguments ''cat'' [] (default_costs :: (char, char, int) CostFunctions) False =
     Inr [[\<lparr>xCell.source = Some CHR ''c'', target = None, this_cost = 1, cumul_cost = 3\<rparr>,
           \<lparr>xCell.source = Some CHR ''a'', target = None, this_cost = 1, cumul_cost = 2\<rparr>,
           \<lparr>xCell.source = Some CHR ''t'', target = None, this_cost = 1, cumul_cost = 1\<rparr>]] \<and>
   cumul_cost (last
          [\<lparr>xCell.source = Some CHR ''c'', target = None, this_cost = 1, cumul_cost = 3\<rparr>,
           \<lparr>xCell.source = Some CHR ''a'', target = None, this_cost = 1, cumul_cost = 2\<rparr>,
           \<lparr>xCell.source = Some CHR ''t'', target = None, this_cost = 1, cumul_cost = (1::int)\<rparr>])
     \<noteq> sum_list (map xCell.this_cost
          [\<lparr>xCell.source = Some CHR ''c'', target = None, this_cost = 1, cumul_cost = 3\<rparr>,
           \<lparr>xCell.source = Some CHR ''a'', target = None, this_cost = 1, cumul_cost = 2\<rparr>,
           \<lparr>xCell.source = Some CHR ''t'', target = None, this_cost = 1, cumul_cost = (1::int)\<rparr>])"
  by (simp add: xducer_eval)

text \<open>
  Claim C9. Whenever \<open>chart.levenshtein\<close> returns an analysis, \<open>get_one_backtrace\<close> on the
  matrix it left returns a path, and the source elements of its steps that are not
  absent, in order, are the source sequence, and likewise the target elements the
  target sequence. The enumerator called from the origin returns parses, and the same
  holds of every parse it returns.
\<close>

theorem C9_reconstruction:
  "(origin_ok m \<and>
    levenshtein is_mark str_s str_t src targ ins_costs del_costs sub_costs m = Inr (an, m') \<longrightarrow>
      (\<exists>bt. get_one_backtrace an m' = Inr bt \<and>
            present (map EditStep.source bt) = src \<and>
            present (map EditStep.target bt) = targ)) \<and>
   (\<exists>parses.
      relate_arguments src targ cf one = Inr parses \<and>
      (\<forall>p \<in> set parses.
         present (map xCell.source p) = src \<and> present (map xCell.target p) = targ))"
proof (intro conjI impI)
  assume h: "origin_ok m \<and>
    levenshtein is_mark str_s str_t src targ ins_costs del_costs sub_costs m = Inr (an, m')"
  then have an: "m' = filled an m" "PairAnalysis.source an = src" "PairAnalysis.target an = targ"
    using levenshtein_InrD [of m is_mark str_s str_t src targ ins_costs del_costs sub_costs an m']
    by simp_all
  obtain bt where bt: "get_one_backtrace an (filled an m) = Inr bt"
    "trace_ok an bt (length (PairAnalysis.target an)) (length (PairAnalysis.source an))"
    using get_one_backtrace_filled [of an m] by blast
  have "present (map EditStep.source bt) = src" "present (map EditStep.target bt) = targ"
    using bt(2) an(2,3) by (simp_all add: trace_ok_def)
  then show "\<exists>bt. get_one_backtrace an m' = Inr bt \<and>
            present (map EditStep.source bt) = src \<and>
            present (map EditStep.target bt) = targ"
    using bt(1) an(1) by blast
next
  have "\<forall>p \<in> set (suffix_parses cf one src targ).
         present (map xCell.source p) = src \<and> present (map xCell.target p) = targ"
    using suffix_parses_props [of cf one src targ] by (simp add: parse_ok_def)
  then show "\<exists>parses.
      relate_arguments src targ cf one = Inr parses \<and>
      (\<forall>p \<in> set parses.
         present (map xCell.source p) = src \<and> present (map xCell.target p) = targ)"
    using relate_arguments_eq [of src targ cf one] by blast
qed

theorem C9_reconstruction_witness:
  "(origin_ok (initial_matrix :: int DistanceMatrix) \<and>
    levenshtein (\<lambda>c. False) (\<lambda>c. [of_char c]) (\<lambda>c. [of_char c]) ''dag'' ''doge''
      lev_ins_function lev_del_function lev_sub_function (initial_matrix :: int DistanceMatrix)
    = Inr (
      \<lparr>PairAnalysis.source = ''dag'', source_widest = 1, target = ''doge'', target_widest = 1,
        ins_cost = lev_ins_function, del_cost = lev_del_function,
        sub_cost = lev_sub_function\<rparr>, filled 
      \<lparr>PairAnalysis.source = ''dag'', source_widest = 1, target = ''doge'', target_widest = 1,
        ins_cost = lev_ins_function, del_cost = lev_del_function,
        sub_cost = lev_sub_function\<rparr> initial_matrix)) \<and>
   (\<exists>bt. get_one_backtrace 
      \<lparr>PairAnalysis.source = ''dag'', source_widest = 1, target = ''doge'', target_widest = 1,
        ins_cost = lev_ins_function, del_cost = lev_del_function,
        sub_cost = lev_sub_function\<rparr>
            (filled 
      \<lparr>PairAnalysis.source = ''dag'', source_widest = 1, target = ''doge'', target_widest = 1,
        ins_cost = lev_ins_function, del_cost = lev_del_function,
        sub_cost = lev_sub_function\<rparr> (initial_matrix :: int DistanceMatrix)) = Inr bt \<and>
         present (map EditStep.source bt) = ''dag'' \<and>
         present (map EditStep.target bt) = ''doge'') \<and>
   (\<exists>parses.
      relate_arguments ''dag'' ''doge'' (default_costs :: (char, char, int) CostFunctions) False
        = Inr parses \<and>
      (\<forall>p \<in> set parses.
         present (map xCell.source p) = ''dag'' \<and> present (map xCell.target p) = ''doge''))"
proof -
  have h: "origin_ok (initial_matrix :: int DistanceMatrix) \<and>
    levenshtein (\<lambda>c. False) (\<lambda>c. [of_char c]) (\<lambda>c. [of_char c]) ''dag'' ''doge''
      lev_ins_function lev_del_function lev_sub_function (initial_matrix :: int DistanceMatrix)
    = Inr (
      \<lparr>PairAnalysis.source = ''dag'', source_widest = 1, target = ''doge'', target_widest = 1,
        ins_cost = lev_ins_function, del_cost = lev_del_function,
        sub_cost = lev_sub_function\<rparr>, filled 
      \<lparr>PairAnalysis.source = ''dag'', source_widest = 1, target = ''doge'', target_widest = 1,
        ins_cost = lev_ins_function, del_cost = lev_del_function,
        sub_cost = lev_sub_function\<rparr> initial_matrix)"
    by (simp add: origin_ok_initial levenshtein_result Let_def print_len_def)
  note c9 = C9_reconstruction [of "initial_matrix :: int DistanceMatrix"
      "\<lambda>c. False" "\<lambda>c. [of_char c]" "\<lambda>c. [of_char c]" "''dag''" "''doge''"
      lev_ins_function lev_del_function lev_sub_function
      "
      \<lparr>PairAnalysis.source = ''dag'', source_widest = 1, target = ''doge'', target_widest = 1,
        ins_cost = lev_ins_function, del_cost = lev_del_function,
        sub_cost = lev_sub_function\<rparr>" "filled 
      \<lparr>PairAnalysis.source = ''dag'', source_widest = 1, target = ''doge'', target_widest = 1,
        ins_cost = lev_ins_function, del_cost = lev_del_function,
        sub_cost = lev_sub_function\<rparr> initial_matrix"
      "default_costs :: (char, char, int) CostFunctions" False]
  show ?thesis
    using h c9 by blast
qed

text \<open>
  Claim C10 is what the code does for every sequence that is not empty
  (\<open>self_identity_nonempty\<close>), and what the class \<open>Levenshtein\<close> does for every sequence
  (\<open>set_pair_self\<close>). \<open>chart.levenshtein\<close> breaks it for the empty sequence: it raises
  ValueError, because \<open>greatest_width\<close> takes \<open>max\<close> of no widths, before it computes
  anything. \<open>compute_min_edit_distance\<close>, \<open>min_edit_distance\<close> and \<open>get_one_backtrace\<close>, given
  an analysis of the empty sequence with itself, leave the matrix as it is and answer
  the distance 0 and the empty backtrace; \<open>Levenshtein.set_pair\<close> returns 0 and
  \<open>alignment_facts\<close> no unit.
\<close>

theorem C10_empty_sequence:
  "greatest_width (\<lambda>c. False) (\<lambda>c. [of_char c]) ([] :: char list) = Inl ValueError \<and>
   levenshtein (\<lambda>c. False) (\<lambda>c. [of_char c]) (\<lambda>c. [of_char c]) ([] :: char list) ([] :: char list)
     lev_ins_function lev_del_function lev_sub_function (initial_matrix :: int DistanceMatrix)
     = Inl ValueError \<and>
   compute_min_edit_distance
     \<lparr>PairAnalysis.source = ([] :: char list), source_widest = 0,
       target = ([] :: char list), target_widest = 0,
       ins_cost = lev_ins_function, del_cost = lev_del_function,
       sub_cost = (lev_sub_function :: char \<Rightarrow> char \<Rightarrow> int)\<rparr>
     initial_matrix = Inr initial_matrix \<and>
   min_edit_distance
     \<lparr>PairAnalysis.source = ([] :: char list), source_widest = 0,
       target = ([] :: char list), target_widest = 0,
       ins_cost = lev_ins_function, del_cost = lev_del_function,
       sub_cost = (lev_sub_function :: char \<Rightarrow> char \<Rightarrow> int)\<rparr>
     initial_matrix = Inr 0 \<and>
   get_one_backtrace
     \<lparr>PairAnalysis.source = ([] :: char list), source_widest = 0,
       target = ([] :: char list), target_widest = 0,
       ins_cost = lev_ins_function, del_cost = lev_del_function,
       sub_cost = (lev_sub_function :: char \<Rightarrow> char \<Rightarrow> int)\<rparr>
     initial_matrix = Inr [] \<and>
   map_sum (\<lambda>e. e) fst
     (set_pair (\<lambda>c. False) (\<lambda>c. [of_char c]) (\<lambda>c. [of_char c])
        (init_Levenshtein lev_ins_function lev_del_function
           (lev_sub_function :: char \<Rightarrow> char \<Rightarrow> int)) [] []) = Inr 0 \<and>
   map_sum (\<lambda>e. e) (\<lambda>result. alignment_facts (snd result))
     (set_pair (\<lambda>c. False) (\<lambda>c. [of_char c]) (\<lambda>c. [of_char c])
        (init_Levenshtein lev_ins_function lev_del_function
           (lev_sub_function :: char \<Rightarrow> char \<Rightarrow> int)) [] []) = Inr (Inr [])"
  by (simp add: chart_eval backtrace_eval lev_eval)

text \<open>
  Claim C3 fails for the tabular engine. \<open>levenshtein\<close> of \<open>ab\<close> against \<open>ab\<close>, then
  \<open>levenshtein\<close> of \<open>a\<close> against \<open>b\<close>, starting from the module's initial matrix: both
  calls succeed; the matrix of the second analysis still holds at \<open>(2, 2)\<close> the cell that
  the first call wrote; and the backtrace of the first analysis, which had two steps of
  cost 0, now shows its first step with cost 2, the cell that the second call wrote at
  \<open>(1, 1)\<close>. By contrast \<open>arguments\<close> gives the enumerator an empty memory at every call.
\<close>

theorem C3_shared_matrix:
  "(case levenshtein (\<lambda>c. False) (\<lambda>c. [of_char c]) (\<lambda>c. [of_char c]) ''ab'' ''ab''
           lev_ins_function lev_del_function lev_sub_function
           (initial_matrix :: int DistanceMatrix) of
      Inl e \<Rightarrow> False
    | Inr (analysis1, matrix1) \<Rightarrow>
        (case levenshtein (\<lambda>c. False) (\<lambda>c. [of_char c]) (\<lambda>c. [of_char c]) ''a'' ''b''
                lev_ins_function lev_del_function lev_sub_function matrix1 of
           Inl e \<Rightarrow> False
         | Inr (analysis2, matrix2) \<Rightarrow>
             matrix2 (2, 2) = Some \<lparr>Cell.this_cost = 0, cumulative_cost = 0, operation = SUB\<rparr> \<and>
             matrix2 (2, 2) = matrix1 (2, 2) \<and>
             get_one_backtrace analysis1 matrix1 =
               Inr [\<lparr>EditStep.source = Some CHR ''a'', target = Some CHR ''a'',
                      cell = \<lparr>Cell.this_cost = 0, cumulative_cost = 0, operation = SUB\<rparr>\<rparr>,
                    \<lparr>EditStep.source = Some CHR ''b'', target = Some CHR ''b'',
                      cell = \<lparr>Cell.this_cost = 0, cumulative_cost = 0, operation = SUB\<rparr>\<rparr>] \<and>
             get_one_backtrace analysis1 matrix2 =
               Inr [\<lparr>EditStep.source = Some CHR ''a'', target = Some CHR ''a'',
                      cell = \<lparr>Cell.this_cost = 2, cumulative_cost = 2, operation = SUB\<rparr>\<rparr>,
                    \<lparr>EditStep.source = Some CHR ''b'', target = Some CHR ''b'',
                      cell = \<lparr>Cell.this_cost = 0, cumulative_cost = 0, operation = SUB\<rparr>\<rparr>]))
   \<and> snd (arguments ''a'' ''b'' (default_costs :: (char, char, int) CostFunctions) False)
       = Map.empty"
  by (simp add: chart_eval backtrace_eval arguments_def)





end
